theory Spec2Isabelle
  imports Complex_Main "HOL-Library.Multiset" "HOL-Library.Signed_Division" "HOL-Library.Word"
begin

section \<open>Strings\<close>

text \<open>
  Go strings are byte sequences; they are modelled as \<open>string\<close> (a list of 8-bit
  characters).  A rune is a Unicode code point, an \<open>int32\<close> in Go.  Ranging over a
  string and the functions of package \<open>strings\<close> that work on runes decode the bytes as
  UTF-8: \<open>DecodeRuneInString\<close> gives the first rune and its width in bytes, and a byte
  that starts no valid encoding (a stray continuation byte, an overlong form, a
  surrogate, a value above \<open>U+10FFFF\<close>, a truncated sequence) gives \<open>RuneError\<close> with
  width 1.
\<close>

type_synonym rune = int

definition RuneError :: rune where
  "RuneError = 0xFFFD"

definition DecodeRuneInString :: "string \<Rightarrow> rune \<times> nat" where
  "DecodeRuneInString s =
     (case s of
        [] \<Rightarrow> (RuneError, 0)
      | c0 # rest \<Rightarrow>
          let s0 = (of_char c0 :: nat) in
          if s0 < 0x80 then (int s0, 1)
          else if s0 < 0xC2 \<or> 0xF4 < s0 then (RuneError, 1)
          else
            let sz = (if s0 < 0xE0 then 2 else if s0 < 0xF0 then 3 else 4 :: nat);
                lo = (if s0 = 0xE0 then 0xA0 else if s0 = 0xF0 then 0x90 else 0x80 :: nat);
                hi = (if s0 = 0xED then 0x9F else if s0 = 0xF4 then 0x8F else 0xBF :: nat)
            in if length s < sz then (RuneError, 1)
               else
                 let s1 = (of_char (s ! 1) :: nat) in
                 if s1 < lo \<or> hi < s1 then (RuneError, 1)
                 else if sz \<le> 2 then (int (s0 mod 32 * 64 + s1 mod 64), 2)
                 else
                   let s2 = (of_char (s ! 2) :: nat) in
                   if s2 < 0x80 \<or> 0xBF < s2 then (RuneError, 1)
                   else if sz \<le> 3
                     then (int (s0 mod 16 * 4096 + s1 mod 64 * 64 + s2 mod 64), 3)
                   else
                     let s3 = (of_char (s ! 3) :: nat) in
                     if s3 < 0x80 \<or> 0xBF < s3 then (RuneError, 1)
                     else (int (s0 mod 8 * 262144 + s1 mod 64 * 4096 + s2 mod 64 * 64
                                + s3 mod 64), 4))"

text \<open>
  The UTF-8 encoding of a rune, as \<open>utf8.AppendRune\<close> and \<open>Builder.WriteRune\<close> write it:
  a rune that is no code point (negative, a surrogate, above \<open>U+10FFFF\<close>) is written as
  \<open>RuneError\<close>.
\<close>

definition EncodeRune :: "rune \<Rightarrow> string" where
  "EncodeRune r =
     (if 0 \<le> r \<and> r \<le> 0x7F then [char_of r]
      else if 0 \<le> r \<and> r \<le> 0x7FF then [char_of (0xC0 + r div 64), char_of (0x80 + r mod 64)]
      else
        let r' = (if r < 0 \<or> 0x10FFFF < r \<or> (0xD800 \<le> r \<and> r \<le> 0xDFFF)
                  then RuneError else r)
        in if r' \<le> 0xFFFF
           then [char_of (0xE0 + r' div 4096), char_of (0x80 + r' div 64 mod 64),
                 char_of (0x80 + r' mod 64)]
           else [char_of (0xF0 + r' div 262144), char_of (0x80 + r' div 4096 mod 64),
                 char_of (0x80 + r' div 64 mod 64), char_of (0x80 + r' mod 64)])"

text \<open>
  What \<open>for i, r := range s\<close> visits: the runes of \<open>s\<close> in order, each with the bytes
  it was decoded from.
\<close>

fun runesOf :: "string \<Rightarrow> (rune \<times> string) list" where
  "runesOf [] = []"
| "runesOf (c # cs) =
     (let (r, size) = DecodeRuneInString (c # cs)
      in (r, take size (c # cs)) # runesOf (drop (size - 1) cs))"

text \<open>
  \<open>strings.Map\<close>: the result is made of the encodings of the mapped runes; a rune
  mapped to a negative value is dropped.  An invalid byte is read as \<open>RuneError\<close>, so
  unless the mapping changes that rune it comes out as the three bytes of \<open>U+FFFD\<close>.
\<close>

definition Map :: "(rune \<Rightarrow> rune) \<Rightarrow> string \<Rightarrow> string" where
  "Map mapping s =
     concat (map (\<lambda>(c, bytes). let r = mapping c in if 0 \<le> r then EncodeRune r else [])
               (runesOf s))"

text \<open>
  \<open>strings.ToLower\<close>.  A string of ASCII bytes only is lower-cased byte by byte;
  any other string goes through \<open>Map\<close> with \<open>unicode.ToLower\<close>, which maps \<open>A\<close> .. \<open>Z\<close>
  itself and looks every rune above \<open>U+007F\<close> up in the case tables of package
  \<open>unicode\<close>.  These tables belong to the Go distribution, not to this repository:
  the parameter \<open>lower\<close> stands for \<open>unicode.To(unicode.LowerCase, r)\<close>, the table lookup
  (it maps \<open>U+0130\<close> to \<open>i\<close> and \<open>U+212A\<close> to \<open>k\<close>, for example), and every result below
  holds for every such table.
\<close>

definition isASCII :: "string \<Rightarrow> bool" where
  "isASCII s = list_all (\<lambda>c. (of_char c :: nat) < 0x80) s"

definition toLowerByte :: "char \<Rightarrow> char" where
  "toLowerByte c =
     (let n = (of_char c :: nat) in if 65 \<le> n \<and> n \<le> 90 then char_of (n + 32) else c)"

definition unicodeToLower :: "(rune \<Rightarrow> rune) \<Rightarrow> rune \<Rightarrow> rune" where
  "unicodeToLower lower r =
     (if r \<le> 0x7F then (if 0x41 \<le> r \<and> r \<le> 0x5A then r + 32 else r) else lower r)"

definition ToLower :: "(rune \<Rightarrow> rune) \<Rightarrow> string \<Rightarrow> string" where
  "ToLower lower s = (if isASCII s then map toLowerByte s else Map (unicodeToLower lower) s)"

text \<open>
  \<open>unicode.IsSpace\<close>: the white space of Latin-1 and the code points with the Unicode
  property \<open>White_Space\<close>.
\<close>

definition IsSpace :: "rune \<Rightarrow> bool" where
  "IsSpace r =
     (if 0 \<le> r \<and> r \<le> 0xFF then r \<in> {0x09, 0x0A, 0x0B, 0x0C, 0x0D, 0x20, 0x85, 0xA0}
      else r = 0x1680 \<or> (0x2000 \<le> r \<and> r \<le> 0x200A) \<or> r = 0x2028 \<or> r = 0x2029
           \<or> r = 0x202F \<or> r = 0x205F \<or> r = 0x3000)"

text \<open>\<open>strings.HasPrefix\<close> and \<open>strings.Contains\<close>.\<close>

fun HasPrefix :: "string \<Rightarrow> string \<Rightarrow> bool" where
  "HasPrefix s [] = True"
| "HasPrefix [] (p # ps) = False"
| "HasPrefix (c # cs) (p # ps) = (c = p \<and> HasPrefix cs ps)"

fun Contains :: "string \<Rightarrow> string \<Rightarrow> bool" where
  "Contains [] sub = (sub = [])"
| "Contains (c # cs) sub = (HasPrefix (c # cs) sub \<or> Contains cs sub)"

section \<open>Intent classifier (router.go)\<close>

datatype QueryIntent =
    IntentSimple
  | IntentAnalytical
  | IntentTax
  | IntentResearch
  | IntentComparison
  | IntentProjection
  | IntentRisk
  | IntentCompliance
  | IntentUnsupported

text \<open>\<open>containsAny\<close>: the loop returns at the first pattern found in the text.\<close>

fun containsAny :: "string \<Rightarrow> string list \<Rightarrow> bool" where
  "containsAny text [] = False"
| "containsAny text (p # ps) = (if Contains text p then True else containsAny text ps)"

definition blockedPatterns :: "string list" where
  "blockedPatterns =
     [''should i buy'', ''should i sell'', ''buy or sell'',
      ''is it a good time to'', ''when should i'',
      ''recommend me'', ''what should i invest in'',
      ''pick stocks for me'', ''best stocks to buy'',
      ''guaranteed'', ''risk-free return'', [CHR ''c'', CHR ''a'', CHR ''n'', CHR 0x27, CHR ''t'',
         CHR '' '', CHR ''l'', CHR ''o'', CHR ''s'', CHR ''e''],
      ''will definitely'', ''100% certain'',
      ''when will the market'', ''will the stock go up'',
      ''price target'', ''where will'',
      ''insider'', ''non-public'', ''confidential information'']"

definition isBlockedQuery :: "string \<Rightarrow> bool" where
  "isBlockedQuery query = containsAny query blockedPatterns"

definition taxKeywords :: "string list" where
  "taxKeywords =
     [''tax'', ''taxes'', ''tax-loss'', ''harvest'', ''wash sale'',
      ''capital gain'', ''capital loss'', ''1099'', ''cost basis'',
      ''short-term'', ''long-term gain'']"

definition riskKeywords :: "string list" where
  "riskKeywords =
     [''risk'', ''volatility'', ''drawdown'', ''beta'', ''sharpe'',
      ''sortino'', ''var'', ''value at risk'', ''exposure'',
      ''concentrated'', ''diversif'']"

definition projectionKeywords :: "string list" where
  "projectionKeywords =
     [''project'', ''forecast'', ''predict'', ''future'', ''scenario'',
      ''what if'', ''monte carlo'', ''retirement'', ''goal'',
      ''will i have'', ''can i afford'']"

definition researchKeywords :: "string list" where
  "researchKeywords =
     [''research'', ''analyze'', ''deep dive'', ''explain why'',
      ''compare to market'', ''versus benchmark'', ''historical'',
      ''trend'', ''pattern'']"

definition comparisonKeywords :: "string list" where
  "comparisonKeywords =
     [''compare'', ''versus'', ''vs'', ''better than'', ''difference between'',
      ''which is'', ''should i choose'']"

definition analyticalKeywords :: "string list" where
  "analyticalKeywords =
     [''portfolio'', ''allocation'', ''holdings'', ''position'',
      ''performance'', ''return'', ''my'', ''how am i'',
      ''rebalance'', ''weight'']"

definition simpleKeywords :: "string list" where
  "simpleKeywords =
     [''what is'', ''what are'', ''define'', ''explain'', ''how does'',
      ''tell me about'', ''meaning of'']"

definition ClassifyIntent :: "(rune \<Rightarrow> rune) \<Rightarrow> string \<Rightarrow> QueryIntent" where
  "ClassifyIntent lower query0 =
     (let query = ToLower lower query0 in
      if isBlockedQuery query then IntentUnsupported
      else if containsAny query taxKeywords then IntentTax
      else if containsAny query riskKeywords then IntentRisk
      else if containsAny query projectionKeywords then IntentProjection
      else if containsAny query researchKeywords then IntentResearch
      else if containsAny query comparisonKeywords then IntentComparison
      else if containsAny query analyticalKeywords then IntentAnalytical
      else if containsAny query simpleKeywords then IntentSimple
      else IntentAnalytical)"

section \<open>Models, configuration and the request and response types (models.go, service.go)\<close>

text \<open>
  \<open>Model\<close> is a Go string type.  Times and durations are nanoseconds.  Where two Go
  structs share a field name, the fields of the second struct carry a prefix (\<open>q_\<close> for
  \<open>Query\<close>, \<open>a_\<close> for \<open>AuditEntry\<close>, \<open>o_\<close> for \<open>HarvestOpportunity\<close>, \<open>t_\<close> for
  \<open>TaxSummary\<close>).
\<close>

subsection \<open>Machine numbers\<close>

text \<open>
  Go's \<open>int\<close> is a 64-bit two's-complement integer on a 64-bit platform: the token
  counts, the running totals and the hit counters are 64-bit words, whose sums wrap
  around, compared as signed numbers (\<open>\<le>s\<close>, \<open><s\<close>).
\<close>

type_synonym goint = "64 word"

text \<open>
  \<open>float64\<close> is IEEE 754 binary64.  A value is a finite double (the rational number it
  denotes), an infinity or \<open>NaN\<close>; the sign of zero is not kept (no value computed below
  is \<open>-0\<close>, and a threshold of \<open>-0\<close> equals zero like \<open>+0\<close>).  \<open>round64 x\<close> is the double
  nearest to the real number \<open>x\<close>, ties going to the even significand: 53 significant bits,
  steps of \<open>2^-1074\<close> below \<open>2^-1022\<close>, and infinity from \<open>2^1024\<close> on.  Every operation
  is rounded on its own (the compiler for amd64 fuses nothing).
\<close>

datatype float64 = Finite rat | PosInf | NegInf | NaN

definition pow2 :: "int \<Rightarrow> rat" where
  "pow2 e = (if 0 \<le> e then 2 ^ nat e else 1 / 2 ^ nat (- e))"

function bitLen :: "int \<Rightarrow> int" where
  "bitLen n = (if n \<le> 0 then 0 else 1 + bitLen (n div 2))"
  by pat_completeness auto
termination
  by (relation "measure nat") auto

declare bitLen.simps [simp del]

text \<open>\<open>floorLog2 a\<close> is the \<open>e\<close> with \<open>2^e \<le> a < 2^(e+1)\<close>, for a positive \<open>a\<close>.\<close>

definition floorLog2From :: "rat \<Rightarrow> int \<Rightarrow> int" where
  "floorLog2From a e = (if a < pow2 e then e - 1 else e)"

definition floorLog2 :: "rat \<Rightarrow> int" where
  "floorLog2 a = floorLog2From a (bitLen (fst (quotient_of a)) - bitLen (snd (quotient_of a)))"

definition roundEvenFrom :: "rat \<Rightarrow> int \<Rightarrow> int" where
  "roundEvenFrom x f =
     (if x - of_int f < 1 / 2 then f else if 1 / 2 < x - of_int f then f + 1
      else if even f then f else f + 1)"

definition roundEven :: "rat \<Rightarrow> int" where
  "roundEven x = roundEvenFrom x \<lfloor>x\<rfloor>"

definition overflow64 :: "rat \<Rightarrow> float64" where
  "overflow64 v =
     (if v = 0 then Finite 0
      else if 1024 \<le> floorLog2 \<bar>v\<bar> then (if 0 < v then PosInf else NegInf)
      else Finite v)"

definition roundToUlp :: "rat \<Rightarrow> rat \<Rightarrow> float64" where
  "roundToUlp x ulp = overflow64 (of_int (roundEven (x / ulp)) * ulp)"

definition round64 :: "rat \<Rightarrow> float64" where
  "round64 x =
     (if x = 0 then Finite 0
      else roundToUlp x (pow2 (max (floorLog2 \<bar>x\<bar>) (- 1022) - 52)))"

text \<open>The conversion \<open>float64(n)\<close> of an integer, and the operations \<open>/\<close>, \<open>*\<close>, \<open>+\<close>.\<close>

definition float64 :: "int \<Rightarrow> float64" where
  "float64 n = round64 (of_int n)"

fun fdiv :: "float64 \<Rightarrow> float64 \<Rightarrow> float64" where
  "fdiv (Finite a) (Finite b) =
     (if b = 0 then (if a = 0 then NaN else if 0 < a then PosInf else NegInf)
      else round64 (a / b))"
| "fdiv NaN y = NaN"
| "fdiv x NaN = NaN"
| "fdiv (Finite a) y = Finite 0"
| "fdiv PosInf (Finite b) = (if 0 \<le> b then PosInf else NegInf)"
| "fdiv NegInf (Finite b) = (if 0 \<le> b then NegInf else PosInf)"
| "fdiv x y = NaN"

fun fmul :: "float64 \<Rightarrow> float64 \<Rightarrow> float64" where
  "fmul (Finite a) (Finite b) = round64 (a * b)"
| "fmul NaN y = NaN"
| "fmul x NaN = NaN"
| "fmul (Finite a) y =
     (if a = 0 then NaN else if (0 < a) = (y = PosInf) then PosInf else NegInf)"
| "fmul x (Finite b) =
     (if b = 0 then NaN else if (0 < b) = (x = PosInf) then PosInf else NegInf)"
| "fmul x y = (if x = y then PosInf else NegInf)"

fun fadd :: "float64 \<Rightarrow> float64 \<Rightarrow> float64" where
  "fadd (Finite a) (Finite b) = round64 (a + b)"
| "fadd NaN y = NaN"
| "fadd x NaN = NaN"
| "fadd (Finite a) y = y"
| "fadd x (Finite b) = x"
| "fadd x y = (if x = y then x else NaN)"

text \<open>The comparisons \<open>x > y\<close> and \<open>x >= y\<close>; both are false when an operand is \<open>NaN\<close>.\<close>

fun fgt :: "float64 \<Rightarrow> float64 \<Rightarrow> bool" where
  "fgt (Finite a) (Finite b) = (b < a)"
| "fgt NaN y = False"
| "fgt x NaN = False"
| "fgt PosInf y = (y \<noteq> PosInf)"
| "fgt x NegInf = (x \<noteq> NegInf)"
| "fgt x y = False"

definition fge :: "float64 \<Rightarrow> float64 \<Rightarrow> bool" where
  "fge x y = (x \<noteq> NaN \<and> y \<noteq> NaN \<and> (x = y \<or> fgt x y))"

subsection \<open>Models and configuration\<close>

type_synonym Model = string

definition ModelHaiku :: Model where "ModelHaiku = ''claude-3-haiku-20240307''"
definition ModelSonnet :: Model where "ModelSonnet = ''claude-sonnet-4-20250514''"
definition ModelOpus :: Model where "ModelOpus = ''claude-opus-4-20250514''"

definition Second :: int where "Second = 1000000000"
definition Minute :: int where "Minute = 60 * Second"
definition Hour :: int where "Hour = 60 * Minute"

text \<open>
  \<open>Config\<close> keeps the fields that the functions below read; the API key, base URL,
  timeout, token limits, temperature and the descriptive \<open>BlockedTopics\<close> list only
  shape the HTTP request or are read nowhere.
\<close>

record Config =
  MaxRetries :: int
  DefaultModel :: Model
  ComplexModel :: Model
  SimpleModel :: Model
  DailyTokenBudget :: goint
  CacheEnabled :: bool
  CacheTTL :: int
  SemanticCacheThresh :: float64
  EnableAuditLog :: bool
  EnableDisclaimers :: bool

definition DefaultConfig :: Config where
  "DefaultConfig =
     \<lparr> MaxRetries = 3,
       DefaultModel = ModelSonnet,
       ComplexModel = ModelSonnet,
       SimpleModel = ModelHaiku,
       DailyTokenBudget = 1000000,
       CacheEnabled = True,
       CacheTTL = 1 * Hour,
       SemanticCacheThresh = round64 (92 / 100),
       EnableAuditLog = True,
       EnableDisclaimers = True \<rparr>"

definition IntentModelRouting :: "QueryIntent \<Rightarrow> Model" where
  "IntentModelRouting intent =
     (case intent of
        IntentSimple \<Rightarrow> ModelHaiku
      | IntentAnalytical \<Rightarrow> ModelSonnet
      | IntentTax \<Rightarrow> ModelSonnet
      | IntentResearch \<Rightarrow> ModelSonnet
      | IntentComparison \<Rightarrow> ModelHaiku
      | IntentProjection \<Rightarrow> ModelSonnet
      | IntentRisk \<Rightarrow> ModelSonnet
      | IntentCompliance \<Rightarrow> ModelSonnet
      | IntentUnsupported \<Rightarrow> ModelHaiku)"

text \<open>
  \<open>SelectModel\<close>.  Every intent of the closed taxonomy has a routing entry, so the
  fallback to \<open>cfg.DefaultModel\<close> for a missing key is never taken.
\<close>

definition SelectModel :: "Config \<Rightarrow> QueryIntent \<Rightarrow> string \<Rightarrow> Model" where
  "SelectModel c intent query =
     (let isComplex = (length query > 500 \<or> length (filter (\<lambda>ch. ch = CHR ''?'') query) > 1);
          model = IntentModelRouting intent
      in if isComplex \<and> model = ModelHaiku then ComplexModel c else model)"

record TokenUsage =
  Input :: goint
  Output :: goint
  Total :: goint

definition zeroUsage :: TokenUsage where
  "zeroUsage = \<lparr> Input = 0, Output = 0, Total = 0 \<rparr>"

record Source =
  SourceType :: string
  Reference :: string
  Description :: string
  URL :: string

definition zeroSource :: Source where
  "zeroSource = \<lparr> SourceType = [], Reference = [], Description = [], URL = [] \<rparr>"

record Query =
  q_ID :: string
  q_UserID :: string
  q_Text :: string
  q_PortfolioID :: string
  q_Context :: "(string \<times> string) list"
  q_Timestamp :: int

text \<open>
  Objects that the code shares by pointer live in an explicit store.  A slice value is
  \<open>nil\<close> or a window (offset and length) on a backing array held in the store; slice
  capacities are not modelled (no code below appends to a slice it did not just create).
\<close>

type_synonym addr = nat

datatype slice = NilSlice | Slice (arr: addr) (off: nat) (slen: nat)

record Response =
  ID :: string
  QueryID :: string
  Text :: string
  Sources :: slice
  Disclaimers :: slice
  Model :: Model
  Intent :: QueryIntent
  TokensUsed :: TokenUsage
  Cached :: bool
  ProcessingMs :: int
  Timestamp :: int

record store =
  resps :: "addr \<rightharpoonup> Response"
  srcArrs :: "addr \<rightharpoonup> Source list"
  strArrs :: "addr \<rightharpoonup> string list"
  nxt :: addr

definition emptyStore :: store where
  "emptyStore = \<lparr> resps = Map.empty, srcArrs = Map.empty, strArrs = Map.empty, nxt = 0 \<rparr>"

text \<open>Allocation hands out the next unused address.\<close>

definition allocResp :: "store \<Rightarrow> Response \<Rightarrow> addr \<times> store" where
  "allocResp s r = (nxt s, s\<lparr> resps := (resps s)(nxt s \<mapsto> r), nxt := Suc (nxt s) \<rparr>)"

definition allocSrcs :: "store \<Rightarrow> Source list \<Rightarrow> slice \<times> store" where
  "allocSrcs s xs =
     (Slice (nxt s) 0 (length xs), s\<lparr> srcArrs := (srcArrs s)(nxt s \<mapsto> xs), nxt := Suc (nxt s) \<rparr>)"

definition allocStrs :: "store \<Rightarrow> string list \<Rightarrow> slice \<times> store" where
  "allocStrs s xs =
     (Slice (nxt s) 0 (length xs), s\<lparr> strArrs := (strArrs s)(nxt s \<mapsto> xs), nxt := Suc (nxt s) \<rparr>)"

definition sliceLen :: "slice \<Rightarrow> nat" where
  "sliceLen sl = (case sl of NilSlice \<Rightarrow> 0 | Slice a i n \<Rightarrow> n)"

text \<open>The elements a slice shows: \<open>sl[0]\<close>, ..., \<open>sl[len(sl) - 1]\<close>.\<close>

definition srcElems :: "store \<Rightarrow> slice \<Rightarrow> Source list" where
  "srcElems s sl =
     (case sl of
        NilSlice \<Rightarrow> []
      | Slice a i n \<Rightarrow> (case srcArrs s a of None \<Rightarrow> [] | Some xs \<Rightarrow> take n (drop i xs)))"

definition strElems :: "store \<Rightarrow> slice \<Rightarrow> string list" where
  "strElems s sl =
     (case sl of
        NilSlice \<Rightarrow> []
      | Slice a i n \<Rightarrow> (case strArrs s a of None \<Rightarrow> [] | Some xs \<Rightarrow> take n (drop i xs)))"

text \<open>
  The built-in \<open>copy(dst, src)\<close> on the elements of a fresh \<open>dst\<close>: the first
  \<open>min(len(dst), len(src))\<close> elements are overwritten.
\<close>

definition copyElems :: "'a list \<Rightarrow> 'a list \<Rightarrow> 'a list" where
  "copyElems dst src =
     (let n = min (length dst) (length src) in take n src @ drop n dst)"

datatype error =
    ErrRateLimit
  | ErrRequest
  | ErrTransport string
  | ErrRead
  | ErrAPIStatus int string
  | ErrJSON
  | ErrEmptyResponse
  | PanicNilPointer
  | ErrClaudeAPI error

section \<open>Semantic query cache (cache.go)\<close>

subsection \<open>Normalisation and keywords\<close>

text \<open>
  \<open>strings.Fields\<close> splits around runs of white space.  A string of ASCII bytes only is
  split at the six ASCII space bytes; any other string goes through \<open>FieldsFunc\<close> with
  \<open>unicode.IsSpace\<close>, which ranges over the runes and keeps the bytes between two runs of
  space runes as they are.
\<close>

definition asciiSpace :: "char \<Rightarrow> bool" where
  "asciiSpace c = ((of_char c :: nat) \<in> {9, 10, 11, 12, 13, 32})"

fun fieldsFrom :: "string \<Rightarrow> string \<Rightarrow> string list" where
  "fieldsFrom cur [] = (if cur = [] then [] else [cur])"
| "fieldsFrom cur (c # cs) =
     (if asciiSpace c then (if cur = [] then fieldsFrom [] cs else cur # fieldsFrom [] cs)
      else fieldsFrom (cur @ [c]) cs)"

fun fieldsLoop :: "(rune \<Rightarrow> bool) \<Rightarrow> string \<Rightarrow> (rune \<times> string) list \<Rightarrow> string list" where
  "fieldsLoop f cur [] = (if cur = [] then [] else [cur])"
| "fieldsLoop f cur ((r, bytes) # rest) =
     (if f r then (if cur = [] then fieldsLoop f [] rest else cur # fieldsLoop f [] rest)
      else fieldsLoop f (cur @ bytes) rest)"

definition FieldsFunc :: "string \<Rightarrow> (rune \<Rightarrow> bool) \<Rightarrow> string list" where
  "FieldsFunc s f = fieldsLoop f [] (runesOf s)"

definition Fields :: "string \<Rightarrow> string list" where
  "Fields s = (if isASCII s then fieldsFrom [] s else FieldsFunc s IsSpace)"

fun Join :: "string list \<Rightarrow> string \<Rightarrow> string" where
  "Join [] sep = []"
| "Join [x] sep = x"
| "Join (x # y # ys) sep = x @ sep @ Join (y # ys) sep"

text \<open>
  \<open>normalizeQuery\<close>: lower case, single blanks between the fields, and of the runes of
  the result only \<open>a\<close> .. \<open>z\<close>, \<open>0\<close> .. \<open>9\<close>, the blank, \<open>$\<close> and \<open>%\<close> are written.
\<close>

definition keptRune :: "rune \<Rightarrow> bool" where
  "keptRune r =
     ((0x61 \<le> r \<and> r \<le> 0x7A) \<or> (0x30 \<le> r \<and> r \<le> 0x39)
      \<or> r = 0x20 \<or> r = 0x24 \<or> r = 0x25)"

definition normalizeQuery :: "(rune \<Rightarrow> rune) \<Rightarrow> string \<Rightarrow> string" where
  "normalizeQuery lower query =
     concat (map EncodeRune
       (filter keptRune (map fst (runesOf (Join (Fields (ToLower lower query)) '' '')))))"

text \<open>
  \<open>hashQuery\<close>.  The parameter \<open>sha\<close> stands for the hex-encoded SHA-256 digest of a
  byte string.
\<close>

definition hashQuery :: "(string \<Rightarrow> string) \<Rightarrow> (rune \<Rightarrow> rune) \<Rightarrow> string \<Rightarrow> string \<Rightarrow> string" where
  "hashQuery sha lower query portfolioID = sha (normalizeQuery lower query @ ''|'' @ portfolioID)"

definition stopWords :: "string list" where
  "stopWords =
     [''a'', ''an'', ''the'', ''is'', ''are'',
      ''was'', ''were'', ''be'', ''been'', ''being'',
      ''have'', ''has'', ''had'', ''do'', ''does'',
      ''did'', ''will'', ''would'', ''could'', ''should'',
      ''may'', ''might'', ''must'', ''shall'',
      ''i'', ''me'', ''my'', ''we'', ''our'',
      ''you'', ''your'', ''it'', ''its'',
      ''this'', ''that'', ''these'', ''those'',
      ''what'', ''which'', ''who'', ''whom'',
      ''how'', ''when'', ''where'', ''why'',
      ''and'', ''or'', ''but'', ''if'', ''then'',
      ''so'', ''as'', ''of'', ''at'', ''by'',
      ''for'', ''with'', ''about'', ''to'', ''from'',
      ''in'', ''on'', ''can'', ''tell'', ''show'']"

definition trimCutset :: "char list" where
  "trimCutset =
     [CHR ''.'', CHR '','', CHR ''!'', CHR ''?'', CHR '';'', CHR '':'', CHR 0x27, CHR 0x22]"

definition Trim :: "string \<Rightarrow> char list \<Rightarrow> string" where
  "Trim w cutset =
     rev (dropWhile (\<lambda>c. c \<in> set cutset) (rev (dropWhile (\<lambda>c. c \<in> set cutset) w)))"

fun keywordLoop :: "string list \<Rightarrow> string list" where
  "keywordLoop [] = []"
| "keywordLoop (w # ws) =
     (let word = Trim w trimCutset in
      if length word < 2 then keywordLoop ws
      else if word \<in> set stopWords then keywordLoop ws
      else word # keywordLoop ws)"

definition extractKeywords :: "(rune \<Rightarrow> rune) \<Rightarrow> string \<Rightarrow> string list" where
  "extractKeywords lower query = keywordLoop (Fields (ToLower lower query))"

subsection \<open>Entries and similarity\<close>

record CacheEntry =
  Query :: string
  QueryHash :: string
  PortfolioID :: string
  Response :: "addr option"
  Keywords :: "string list"
  CreatedAt :: int
  HitCount :: goint

record QueryCache =
  cache :: "string \<rightharpoonup> CacheEntry"
  ttl :: int
  threshold :: float64
  maxEntries :: int

text \<open>
  \<open>calculateSimilarity\<close>.  The two maps used as sets hold the distinct keywords.  The
  division of two zero lengths gives \<open>NaN\<close>, that of a positive length by a zero length
  gives \<open>+Inf\<close>, whose reciprocal is \<open>0\<close>.
\<close>

definition calculateSimilarity :: "string \<Rightarrow> string list \<Rightarrow> CacheEntry \<Rightarrow> float64" where
  "calculateSimilarity normalizedQuery queryKeywords entry =
     (if length queryKeywords = 0 \<or> length (Keywords entry) = 0 then Finite 0
      else
        let querySet = remdups queryKeywords;
            entrySet = remdups (Keywords entry);
            intersection = length (filter (\<lambda>kw. kw \<in> set entrySet) querySet);
            union = length querySet + length (filter (\<lambda>kw. kw \<notin> set querySet) entrySet)
        in if union = 0 then Finite 0
           else
             let jaccardSim = fdiv (float64 (int intersection)) (float64 (int union));
                 lenRatio0 = fdiv (float64 (int (length normalizedQuery)))
                                  (float64 (int (length (Query entry))));
                 lenRatio = (if fgt lenRatio0 (Finite 1) then fdiv (Finite 1) lenRatio0
                             else lenRatio0)
             in fadd (fmul jaccardSim (round64 (7 / 10))) (fmul lenRatio (round64 (3 / 10))))"

definition NewQueryCache :: "int \<Rightarrow> float64 \<Rightarrow> QueryCache" where
  "NewQueryCache ttl0 threshold0 =
     \<lparr> cache = Map.empty,
       ttl = (if ttl0 = 0 then 1 * Hour else ttl0),
       threshold = (if threshold0 = Finite 0 then round64 (92 / 100) else threshold0),
       maxEntries = 10000 \<rparr>"

subsection \<open>Get\<close>

text \<open>
  \<open>cloneResponse\<close>: a copy of the struct in a new object, with \<open>Sources\<close> and
  \<open>Disclaimers\<close> copied into new backing arrays.  Go pointers never dangle, so the
  branch for an address with no object is not reachable.
\<close>

definition cloneResponse :: "store \<Rightarrow> addr option \<Rightarrow> addr option \<times> store" where
  "cloneResponse s r =
     (case r of
        None \<Rightarrow> (None, s)
      | Some a \<Rightarrow>
          (case resps s a of
             None \<Rightarrow> (None, s)
           | Some ro \<Rightarrow>
               let (srcs, s1) = allocSrcs s
                      (copyElems (replicate (sliceLen (Sources ro)) zeroSource) (srcElems s (Sources ro)));
                   (ds, s2) = allocStrs s1
                      (copyElems (replicate (sliceLen (Disclaimers ro)) []) (strElems s1 (Disclaimers ro)));
                   (a', s3) = allocResp s2 (ro\<lparr> Sources := srcs, Disclaimers := ds \<rparr>)
               in (Some a', s3)))"

text \<open>
  What both lookups of \<open>Get\<close> do with the entry they settle on: the entry's hit counter
  is incremented in place and a clone of its response is returned.
\<close>

definition hit :: "QueryCache \<Rightarrow> store \<Rightarrow> string \<Rightarrow> CacheEntry \<Rightarrow> addr option \<times> QueryCache \<times> store" where
  "hit c s h entry =
     (let c' = c\<lparr> cache := (cache c)(h \<mapsto> entry\<lparr> HitCount := HitCount entry + 1 \<rparr>) \<rparr>;
          (r, s') = cloneResponse s (Response entry)
      in (r, c', s'))"

text \<open>
  The similarity scan ranges over the Go map; \<open>order\<close> lists the keys in the order
  this range visits them (Go leaves it unspecified).
\<close>

fun scan :: "QueryCache \<Rightarrow> store \<Rightarrow> int \<Rightarrow> string \<Rightarrow> string list \<Rightarrow> string \<Rightarrow> string list
    \<Rightarrow> addr option \<times> QueryCache \<times> store" where
  "scan c s now normalizedQuery queryKeywords portfolioID [] = (None, c, s)"
| "scan c s now normalizedQuery queryKeywords portfolioID (h # hs) =
     (case cache c h of
        None \<Rightarrow> scan c s now normalizedQuery queryKeywords portfolioID hs
      | Some entry \<Rightarrow>
          if PortfolioID entry \<noteq> portfolioID
            then scan c s now normalizedQuery queryKeywords portfolioID hs
          else if now - CreatedAt entry \<ge> ttl c
            then scan c s now normalizedQuery queryKeywords portfolioID hs
          else if fge (calculateSimilarity normalizedQuery queryKeywords entry) (threshold c)
            then hit c s h entry
          else scan c s now normalizedQuery queryKeywords portfolioID hs)"

definition Get :: "(string \<Rightarrow> string) \<Rightarrow> (rune \<Rightarrow> rune) \<Rightarrow> QueryCache \<Rightarrow> store \<Rightarrow> int
    \<Rightarrow> string list \<Rightarrow> string \<Rightarrow> string \<Rightarrow> addr option \<times> QueryCache \<times> store" where
  "Get sha lower c s now order query portfolioID =
     (let h = hashQuery sha lower query portfolioID;
          exact = (case cache c h of
                     None \<Rightarrow> None
                   | Some entry \<Rightarrow> if now - CreatedAt entry < ttl c then Some entry else None)
      in case exact of
           Some entry \<Rightarrow> hit c s h entry
         | None \<Rightarrow> scan c s now (normalizeQuery lower query) (extractKeywords lower query)
                     portfolioID order)"

subsection \<open>Set and eviction\<close>

record entryAge =
  hash :: string
  age :: int

text \<open>\<open>evictOldest\<close> first collects the hash and creation time of every entry.\<close>

definition rangeEntries :: "(string \<rightharpoonup> CacheEntry) \<Rightarrow> string list \<Rightarrow> entryAge list" where
  "rangeEntries m order =
     List.map_filter (\<lambda>h. map_option (\<lambda>entry. \<lparr> hash = h, age = CreatedAt entry \<rparr>) (m h)) order"

text \<open>The two nested loops that sort \<open>entries\<close> by age, oldest first.\<close>

function sortInner :: "nat \<Rightarrow> nat \<Rightarrow> entryAge list \<Rightarrow> entryAge list" where
  "sortInner i j es =
     (if j < length es
      then sortInner i (j + 1)
             (if age (es ! j) < age (es ! i) then es[i := es ! j, j := es ! i] else es)
      else es)"
  by pat_completeness auto
termination
  by (relation "measure (\<lambda>(i, j, es). length es - j)") auto

declare sortInner.simps [simp del]

lemma length_sortInner [simp]: "length (sortInner i j es) = length es"
proof (induction i j es rule: sortInner.induct)
  case (1 i j es)
  show ?case
  proof (cases "j < length es")
    case True
    then show ?thesis using 1 by (subst sortInner.simps) (simp split: if_splits)
  next
    case False
    then show ?thesis by (subst sortInner.simps) simp
  qed
qed

function sortOuter :: "nat \<Rightarrow> entryAge list \<Rightarrow> entryAge list" where
  "sortOuter i es =
     (if i + 1 < length es then sortOuter (i + 1) (sortInner i (i + 1) es) else es)"
  by pat_completeness auto
termination
  by (relation "measure (\<lambda>(i, es). length es - i)") auto

declare sortOuter.simps [simp del]

text \<open>
  The number of entries to evict: a tenth of \<open>maxEntries\<close> (Go's integer division
  truncates towards zero), but at least one.
\<close>

definition evictCountOf :: "int \<Rightarrow> int" where
  "evictCountOf maxE = (let n = maxE sdiv 10 in if n < 1 then 1 else n)"

definition evictOldest :: "QueryCache \<Rightarrow> string list \<Rightarrow> QueryCache" where
  "evictOldest c order =
     (let evictCount = evictCountOf (maxEntries c);
          entries = sortOuter 0 (rangeEntries (cache c) order)
      in c\<lparr> cache := fold (\<lambda>e m. m(hash e := None)) (take (nat evictCount) entries) (cache c) \<rparr>)"

text \<open>\<open>len(c.cache)\<close>.\<close>

definition lenCache :: "QueryCache \<Rightarrow> int" where
  "lenCache c = int (card (dom (cache c)))"

definition Set :: "(string \<Rightarrow> string) \<Rightarrow> (rune \<Rightarrow> rune) \<Rightarrow> QueryCache \<Rightarrow> int \<Rightarrow> string list
    \<Rightarrow> string \<Rightarrow> string \<Rightarrow> addr option \<Rightarrow> QueryCache" where
  "Set sha lower c now order query portfolioID response =
     (let c1 = (if lenCache c \<ge> maxEntries c then evictOldest c order else c);
          h = hashQuery sha lower query portfolioID
      in c1\<lparr> cache := (cache c1)(h \<mapsto>
             \<lparr> Query = normalizeQuery lower query,
               QueryHash = h,
               PortfolioID = portfolioID,
               Response = response,
               Keywords = extractKeywords lower query,
               CreatedAt = now,
               HitCount = 0 \<rparr>) \<rparr>)"

subsection \<open>Invalidate and cleanup\<close>

text \<open>
  Both loops range over the map and delete the entry at hand when it matches.  Go
  produces every entry that is not removed before it is reached, and these loops remove
  only the entry they are at, so each range visits every key once, in the order given
  by \<open>order\<close>.
\<close>

fun invalidateLoop :: "string \<Rightarrow> string list \<Rightarrow> (string \<rightharpoonup> CacheEntry) \<Rightarrow> (string \<rightharpoonup> CacheEntry)" where
  "invalidateLoop portfolioID [] m = m"
| "invalidateLoop portfolioID (h # hs) m =
     (case m h of
        None \<Rightarrow> invalidateLoop portfolioID hs m
      | Some entry \<Rightarrow>
          if PortfolioID entry = portfolioID then invalidateLoop portfolioID hs (m(h := None))
          else invalidateLoop portfolioID hs m)"

definition Invalidate :: "QueryCache \<Rightarrow> string list \<Rightarrow> string \<Rightarrow> QueryCache" where
  "Invalidate c order portfolioID = c\<lparr> cache := invalidateLoop portfolioID order (cache c) \<rparr>"

fun cleanupLoop :: "int \<Rightarrow> int \<Rightarrow> string list \<Rightarrow> (string \<rightharpoonup> CacheEntry) \<Rightarrow> (string \<rightharpoonup> CacheEntry)" where
  "cleanupLoop now ttl0 [] m = m"
| "cleanupLoop now ttl0 (h # hs) m =
     (case m h of
        None \<Rightarrow> cleanupLoop now ttl0 hs m
      | Some entry \<Rightarrow>
          if now - CreatedAt entry \<ge> ttl0 then cleanupLoop now ttl0 hs (m(h := None))
          else cleanupLoop now ttl0 hs m)"

definition cleanup :: "QueryCache \<Rightarrow> string list \<Rightarrow> int \<Rightarrow> QueryCache" where
  "cleanup c order now = c\<lparr> cache := cleanupLoop now (ttl c) order (cache c) \<rparr>"

subsection \<open>Range orders and operation sequences\<close>

text \<open>
  A range over the map visits every key once: a valid order for a cache lists its keys
  without repetition.  The cache states the program can reach start from
  \<open>NewQueryCache\<close> and go through \<open>Set\<close>, \<open>Get\<close>, \<open>Invalidate\<close> and \<open>cleanup\<close> (the
  background sweep), each range taking some valid order.
\<close>

definition validOrder :: "QueryCache \<Rightarrow> string list \<Rightarrow> bool" where
  "validOrder c order \<longleftrightarrow> distinct order \<and> set order = dom (cache c)"

inductive reachable :: "(string \<Rightarrow> string) \<Rightarrow> (rune \<Rightarrow> rune) \<Rightarrow> QueryCache \<Rightarrow> bool"
  for sha lower where
  new: "reachable sha lower (NewQueryCache ttl0 threshold0)"
| set: "reachable sha lower c \<Longrightarrow> validOrder c order
        \<Longrightarrow> reachable sha lower (Set sha lower c now order query portfolioID response)"
| get: "reachable sha lower c \<Longrightarrow> validOrder c order
        \<Longrightarrow> reachable sha lower (fst (snd (Get sha lower c s now order query portfolioID)))"
| invalidate: "reachable sha lower c \<Longrightarrow> validOrder c order
        \<Longrightarrow> reachable sha lower (Invalidate c order portfolioID)"
| cleanup: "reachable sha lower c \<Longrightarrow> validOrder c order
        \<Longrightarrow> reachable sha lower (cleanup c order now)"

section \<open>Audit logger (audit.go)\<close>

record AuditEntry =
  a_ID :: string
  a_Timestamp :: int
  a_UserID :: string
  a_QueryID :: string
  a_QueryText :: string
  a_QueryIntent :: QueryIntent
  a_ResponseID :: string
  a_ResponseModel :: Model
  a_TokensUsed :: TokenUsage
  a_Cached :: bool
  a_ProcessingMs :: int
  a_Sources :: slice
  a_Disclaimers :: slice

record AuditLogger =
  enabled :: bool
  entries :: "AuditEntry list"

definition NewAuditLogger :: "bool \<Rightarrow> AuditLogger" where
  "NewAuditLogger en = \<lparr> enabled = en, entries = [] \<rparr>"

text \<open>
  \<open>Log\<close> appends one entry when the logger is enabled.  The entry's \<open>Sources\<close> is a new
  array of the cited references; its \<open>Disclaimers\<close> is the response's own slice.  The
  JSON line written to standard output is not modelled.
\<close>

definition Log :: "AuditLogger \<Rightarrow> store \<Rightarrow> int \<Rightarrow> Query \<Rightarrow> addr \<Rightarrow> AuditLogger \<times> store" where
  "Log al s now query response =
     (if \<not> enabled al then (al, s)
      else
        (case resps s response of
           None \<Rightarrow> (al, s)
         | Some r \<Rightarrow>
             let (sources, s1) = allocStrs s
                    (copyElems (replicate (sliceLen (Sources r)) []) (map Reference (srcElems s (Sources r))));
                 entry = \<lparr> a_ID = ID r,
                           a_Timestamp = now,
                           a_UserID = q_UserID query,
                           a_QueryID = q_ID query,
                           a_QueryText = q_Text query,
                           a_QueryIntent = Intent r,
                           a_ResponseID = ID r,
                           a_ResponseModel = Model r,
                           a_TokensUsed = TokensUsed r,
                           a_Cached = Cached r,
                           a_ProcessingMs = ProcessingMs r,
                           a_Sources = sources,
                           a_Disclaimers = Disclaimers r \<rparr>
             in (al\<lparr> entries := entries al @ [entry] \<rparr>, s1)))"

section \<open>Orchestrator: state, usage limiter and remote call (service.go)\<close>

text \<open>
  The state of a \<open>Service\<close>.  The router has no state of its own, the HTTP client is
  part of the environment, and the locks serialise the operations, which are modelled
  one at a time.
\<close>

record Service =
  cfg :: Config
  svcCache :: QueryCache
  auditor :: AuditLogger
  dailyTokens :: "string \<rightharpoonup> goint"
  lastReset :: int

definition NewService :: "Config option \<Rightarrow> int \<Rightarrow> Service" where
  "NewService cfg0 now =
     (let c = (case cfg0 of None \<Rightarrow> DefaultConfig | Some c \<Rightarrow> c) in
      \<lparr> cfg = c,
        svcCache = NewQueryCache (CacheTTL c) (SemanticCacheThresh c),
        auditor = NewAuditLogger (EnableAuditLog c),
        dailyTokens = Map.empty,
        lastReset = now \<rparr>)"

subsection \<open>Usage limiter\<close>

text \<open>Reading a Go map at a missing key gives the zero value.\<close>

definition tokensOf :: "Service \<Rightarrow> string \<Rightarrow> goint" where
  "tokensOf s userID = (case dailyTokens s userID of None \<Rightarrow> 0 | Some n \<Rightarrow> n)"

definition checkRateLimits :: "int \<Rightarrow> string \<Rightarrow> Service \<Rightarrow> error option \<times> Service" where
  "checkRateLimits now userID s =
     (let s1 = (if now - lastReset s > 24 * Hour
                then s\<lparr> dailyTokens := Map.empty, lastReset := now \<rparr> else s)
      in if DailyTokenBudget (cfg s1) \<le>s tokensOf s1 userID then (Some ErrRateLimit, s1)
         else (None, s1))"

definition trackUsage :: "string \<Rightarrow> TokenUsage \<Rightarrow> Service \<Rightarrow> Service" where
  "trackUsage userID usage s =
     s\<lparr> dailyTokens := (dailyTokens s)(userID \<mapsto> tokensOf s userID + Total usage) \<rparr>"

text \<open>
  A sequence of recorded usages, and what it sums to for one user in the arithmetic of
  \<open>trackUsage\<close> (64 bits, wrapping around).
\<close>

fun recordAll :: "(string \<times> TokenUsage) list \<Rightarrow> Service \<Rightarrow> Service" where
  "recordAll [] s = s"
| "recordAll ((u, usage) # rest) s = recordAll rest (trackUsage u usage s)"

fun usageSum :: "string \<Rightarrow> (string \<times> TokenUsage) list \<Rightarrow> goint" where
  "usageSum u [] = 0"
| "usageSum u ((v, usage) # rest) = (if v = u then Total usage else 0) + usageSum u rest"

text \<open>The same sum as a number, each recorded total read as a signed value.\<close>

fun exactSum :: "string \<Rightarrow> (string \<times> TokenUsage) list \<Rightarrow> int" where
  "exactSum u [] = 0"
| "exactSum u ((v, usage) # rest) = (if v = u then sint (Total usage) else 0) + exactSum u rest"

subsection \<open>The remote call\<close>

text \<open>
  The remote model is the environment.  An exchange either fails in transport or
  yields a status code and a body; a body that can be read holds its raw text and, when
  the text parses, the generated texts and the two token counts.  \<open>http i\<close> is the result
  of the \<open>i\<close>-th attempt; \<open>reqFails\<close> says that encoding or building the request failed.
\<close>

datatype respBody = ReadFailed | Body string "(string list \<times> goint \<times> goint) option"

datatype httpResult = HttpErr string | HttpResp int respBody

definition attemptOk :: "httpResult \<Rightarrow> bool" where
  "attemptOk r = (case r of HttpErr e \<Rightarrow> False | HttpResp status b \<Rightarrow> status < 500)"

text \<open>
  The retry loop: \<open>i\<close> runs from \<open>0\<close> to \<open>MaxRetries\<close> and stops at the first attempt
  with no transport error and a status below 500.  The result is the last exchange (none
  when the loop body never ran) and the number of requests sent.
\<close>

function retryLoop :: "(nat \<Rightarrow> httpResult) \<Rightarrow> int \<Rightarrow> int \<Rightarrow> httpResult option
    \<Rightarrow> httpResult option \<times> nat" where
  "retryLoop http maxRetries i prev =
     (if i \<le> maxRetries \<and> 0 \<le> i
      then (let r = http (nat i) in
            if attemptOk r then (Some r, nat i + 1)
            else retryLoop http maxRetries (i + 1) (Some r))
      else (prev, nat i))"
  by pat_completeness auto
termination
  by (relation "measure (\<lambda>(http, maxRetries, i, prev). nat (maxRetries + 1 - i))") auto

declare retryLoop.simps [simp del]

definition callClaude :: "Config \<Rightarrow> bool \<Rightarrow> (nat \<Rightarrow> httpResult)
    \<Rightarrow> (error + string \<times> TokenUsage) \<times> nat" where
  "callClaude c reqFails http =
     (if reqFails then (Inl ErrRequest, 0)
      else
        let (final, calls) = retryLoop http (MaxRetries c) 0 None in
        (case final of
           None \<Rightarrow> (Inl PanicNilPointer, calls)
         | Some (HttpErr e) \<Rightarrow> (Inl (ErrTransport e), calls)
         | Some (HttpResp status b) \<Rightarrow>
             (case b of
                ReadFailed \<Rightarrow> (Inl ErrRead, calls)
              | Body raw parsed \<Rightarrow>
                  if status \<noteq> 200 then (Inl (ErrAPIStatus status raw), calls)
                  else
                    (case parsed of
                       None \<Rightarrow> (Inl ErrJSON, calls)
                     | Some (content, inputTokens, outputTokens) \<Rightarrow>
                         (case content of
                            [] \<Rightarrow> (Inl ErrEmptyResponse, calls)
                          | t # ts \<Rightarrow>
                              (Inr (t, \<lparr> Input = inputTokens, Output = outputTokens,
                                         Total = inputTokens + outputTokens \<rparr>), calls))))))"

section \<open>Tax opportunity analyzer (tax.go)\<close>

text \<open>
  \<open>decimal.Decimal\<close> is an arbitrary-precision decimal; it is modelled as a rational.
  Sums, differences and products are exact; \<open>Round\<close> rounds half away from zero and
  \<open>Div\<close> rounds the quotient to 16 places.
\<close>

type_synonym Decimal = rat

definition Round :: "Decimal \<Rightarrow> nat \<Rightarrow> Decimal" where
  "Round d places = sgn d * of_int \<lfloor>\<bar>d\<bar> * 10 ^ places + 1 / 2\<rfloor> / 10 ^ places"

definition Div :: "Decimal \<Rightarrow> Decimal \<Rightarrow> Decimal" where
  "Div d d2 = Round (d / d2) 16"

function natStr :: "nat \<Rightarrow> string" where
  "natStr n = (if n < 10 then [char_of (48 + n)] else natStr (n div 10) @ [char_of (48 + n mod 10)])"
  by pat_completeness auto
termination
  by (relation "measure (\<lambda>n. n)") auto

declare natStr.simps [simp del]

definition StringFixed :: "Decimal \<Rightarrow> nat \<Rightarrow> string" where
  "StringFixed d places =
     (let r = Round d places;
          n = nat \<lfloor>\<bar>r\<bar> * 10 ^ places\<rfloor>;
          whole = natStr (n div 10 ^ places);
          frac = natStr (n mod 10 ^ places)
      in (if r < 0 then ''-'' else [])
         @ whole
         @ (if places = 0 then [] else ''.'' @ replicate (places - length frac) (CHR ''0'') @ frac))"

type_synonym AssetClass = string

definition AssetClassEquity :: AssetClass where "AssetClassEquity = ''equity''"
definition AssetClassFixedIncome :: AssetClass where "AssetClassFixedIncome = ''fixed_income''"

text \<open>Of \<open>models.Holding\<close> and \<open>models.Portfolio\<close>, the fields this package reads.\<close>

record Holding =
  Ticker :: string
  Name :: string
  MarketValue :: Decimal
  CostBasis :: Decimal
  AssetClass :: AssetClass
  Sector :: string
  Geography :: string

record Portfolio =
  TotalValue :: Decimal
  Holdings :: "Holding list"

definition GainLoss :: "Holding \<Rightarrow> Decimal" where
  "GainLoss h = MarketValue h - CostBasis h"

record TaxOptimizer =
  washSaleWindow :: int
  longTermThreshold :: int
  minLossThreshold :: Decimal

definition NewTaxOptimizer :: TaxOptimizer where
  "NewTaxOptimizer =
     \<lparr> washSaleWindow = 30 * 24 * Hour,
       longTermThreshold = 365 * 24 * Hour,
       minLossThreshold = 100 \<rparr>"

datatype TaxLotType = TaxLotShortTerm | TaxLotLongTerm

record HarvestOpportunity =
  o_Ticker :: string
  o_Name :: string
  CurrentValue :: Decimal
  o_CostBasis :: Decimal
  UnrealizedLoss :: Decimal
  LossPercent :: Decimal
  LotType :: TaxLotType
  EstimatedSavings :: Decimal
  Alternatives :: "string list"
  WashSaleRisk :: bool
  Notes :: string

record TaxSummary =
  TotalUnrealizedGains :: Decimal
  TotalUnrealizedLosses :: Decimal
  NetUnrealized :: Decimal
  ShortTermGains :: Decimal
  ShortTermLosses :: Decimal
  LongTermGains :: Decimal
  LongTermLosses :: Decimal
  HarvestableAmount :: Decimal
  EstimatedTaxSavings :: Decimal
  Opportunities :: "HarvestOpportunity list"
  Recommendations :: "string list"
  t_Disclaimers :: "string list"

definition findAlternatives :: "Holding \<Rightarrow> Portfolio \<Rightarrow> string list" where
  "findAlternatives holding portfolio =
     (if AssetClass holding = AssetClassEquity then
        (if Geography holding = ''US''
         then [''Consider a different S&P 500 ETF (VOO '' @ [CHR 0xE2, CHR 0x86, CHR 0x92] @ '' IVV or SPY)'',
               ''Total market ETF as alternative (VTI, ITOT)'']
         else [''Consider equivalent international ETF from different provider''])
      else if AssetClass holding = AssetClassFixedIncome then
        [''Consider bond ETF from different provider'',
         ''Treasury ETF as alternative to corporate bonds'']
      else [''Consult advisor for suitable alternatives''])"

fun relatedLoop :: "Holding \<Rightarrow> Holding list \<Rightarrow> bool" where
  "relatedLoop holding [] = False"
| "relatedLoop holding (h # hs) =
     (if Ticker h = Ticker holding then relatedLoop holding hs
      else if AssetClass h = AssetClass holding \<and> Sector h = Sector holding
              \<and> Geography h = Geography holding then True
      else relatedLoop holding hs)"

definition hasRelatedHoldings :: "Holding \<Rightarrow> Portfolio \<Rightarrow> bool" where
  "hasRelatedHoldings holding portfolio = relatedLoop holding (Holdings portfolio)"

definition generateNotes :: "Holding \<Rightarrow> Decimal \<Rightarrow> Decimal \<Rightarrow> bool \<Rightarrow> string" where
  "generateNotes holding loss lossPercent washSaleRisk =
     (Ticker holding @ '' is down '' @ StringFixed lossPercent 1 @ ''% from cost basis. '')
     @ (if lossPercent > 20 then ''Significant loss may warrant harvesting. '' else [])
     @ (if washSaleRisk
        then ''CAUTION: Wash sale risk if you have similar holdings or plan to repurchase within 30 days.''
        else ''Consider replacing with similar but not substantially identical investment.'')"

definition createHarvestOpportunity :: "Holding \<Rightarrow> Decimal \<Rightarrow> Portfolio \<Rightarrow> HarvestOpportunity" where
  "createHarvestOpportunity holding loss portfolio =
     (let lossPercent = (if CostBasis holding \<noteq> 0
                         then Round (Div loss (CostBasis holding) * 100) 2 else 0);
          estimatedSavings = Round (loss * (20 / 100)) 2;
          alternatives = findAlternatives holding portfolio;
          washSaleRisk = (length alternatives > 0 \<and> hasRelatedHoldings holding portfolio);
          notes = generateNotes holding loss lossPercent washSaleRisk
      in \<lparr> o_Ticker = Ticker holding,
           o_Name = Name holding,
           CurrentValue = MarketValue holding,
           o_CostBasis = CostBasis holding,
           UnrealizedLoss = loss,
           LossPercent = lossPercent,
           LotType = TaxLotLongTerm,
           EstimatedSavings = estimatedSavings,
           Alternatives = alternatives,
           WashSaleRisk = washSaleRisk,
           Notes = notes \<rparr>)"

text \<open>\<open>month\<close> is \<open>time.Now().Month()\<close>, from 1 to 12.\<close>

definition generateRecommendations :: "nat \<Rightarrow> TaxSummary \<Rightarrow> string list" where
  "generateRecommendations month summary =
     (let recs1 = (if HarvestableAmount summary > 1000
                   then [''You have approximately $'' @ StringFixed (HarvestableAmount summary) 0
                         @ '' in harvestable losses that could offset gains or income.'']
                   else []);
          recs2 = (if TotalUnrealizedGains summary > 0 \<and> TotalUnrealizedLosses summary > 0
                   then [''Consider pairing loss harvesting with gain realization to optimize tax impact.'']
                   else []);
          recs3 = (case Opportunities summary of
                     [] \<Rightarrow> []
                   | topOpp # rest \<Rightarrow>
                       if LossPercent topOpp > 30
                       then [o_Ticker topOpp @ '' has a significant loss ('' @ StringFixed (LossPercent topOpp) 1
                             @ ''%). Review if this aligns with your investment thesis.'']
                       else []);
          recs4 = (if month \<ge> 10
                   then [''Year-end is approaching. Consider tax-loss harvesting before December 31 for current tax year benefits.'']
                   else []);
          recs = recs1 @ recs2 @ recs3 @ recs4
                 @ [''Remember: Capital losses can offset capital gains, plus up to $3,000 of ordinary income annually.'']
      in if length recs = 0
         then recs @ [''No significant tax optimization opportunities identified at this time.'']
         else recs)"

text \<open>The loop over the holdings, threading the summary.\<close>

fun analyzeLoop :: "TaxOptimizer \<Rightarrow> Portfolio \<Rightarrow> Holding list \<Rightarrow> TaxSummary \<Rightarrow> TaxSummary" where
  "analyzeLoop t portfolio [] summary = summary"
| "analyzeLoop t portfolio (holding # rest) summary =
     analyzeLoop t portfolio rest
       (let gainLoss = GainLoss holding in
        if gainLoss > 0 then
          summary\<lparr> TotalUnrealizedGains := TotalUnrealizedGains summary + gainLoss,
                   LongTermGains := LongTermGains summary + gainLoss \<rparr>
        else if gainLoss < 0 then
          (let loss = \<bar>gainLoss\<bar>;
               summary1 = summary\<lparr> TotalUnrealizedLosses := TotalUnrealizedLosses summary + loss,
                                    LongTermLosses := LongTermLosses summary + loss \<rparr>
           in if loss \<ge> minLossThreshold t
              then summary1\<lparr> Opportunities :=
                                 Opportunities summary1 @ [createHarvestOpportunity holding loss portfolio],
                               HarvestableAmount := HarvestableAmount summary1 + loss \<rparr>
              else summary1)
        else summary)"

definition emptySummary :: TaxSummary where
  "emptySummary =
     \<lparr> TotalUnrealizedGains = 0, TotalUnrealizedLosses = 0, NetUnrealized = 0,
       ShortTermGains = 0, ShortTermLosses = 0, LongTermGains = 0, LongTermLosses = 0,
       HarvestableAmount = 0, EstimatedTaxSavings = 0,
       Opportunities = [], Recommendations = [],
       t_Disclaimers =
         [''This analysis is for educational purposes only and does not constitute tax advice.'',
          ''Consult a qualified tax professional before making tax-related decisions.'',
          ''Tax implications vary based on individual circumstances.'',
          ''Wash sale rules may affect the deductibility of losses.''] \<rparr>"

text \<open>
  \<open>AnalyzeTaxOpportunities\<close>; the portfolio pointer may be \<open>nil\<close>.  \<open>sort.Slice\<close> orders
  the opportunities by falling loss; it is modelled by a stable insertion sort (Go leaves
  the order of equal losses open).
\<close>

definition AnalyzeTaxOpportunities :: "TaxOptimizer \<Rightarrow> nat \<Rightarrow> Portfolio option \<Rightarrow> TaxSummary" where
  "AnalyzeTaxOpportunities t month portfolio0 =
     (case portfolio0 of
        None \<Rightarrow> emptySummary
      | Some portfolio \<Rightarrow>
          if length (Holdings portfolio) = 0 then emptySummary
          else
            let s1 = analyzeLoop t portfolio (Holdings portfolio) emptySummary;
                s2 = s1\<lparr> NetUnrealized := TotalUnrealizedGains s1 - TotalUnrealizedLosses s1 \<rparr>;
                shortTermSavings = ShortTermLosses s2 * (24 / 100);
                longTermSavings = LongTermLosses s2 * (15 / 100);
                s3 = s2\<lparr> EstimatedTaxSavings := Round (shortTermSavings + longTermSavings) 2 \<rparr>;
                s4 = s3\<lparr> Opportunities := sort_key (\<lambda>opp. - UnrealizedLoss opp) (Opportunities s3) \<rparr>
            in s4\<lparr> Recommendations := generateRecommendations month s4 \<rparr>)"

section \<open>Orchestrator: Ask (service.go)\<close>

definition refusalText :: string where
  "refusalText =
     ''I can'' @ [CHR 0x27] @ ''t provide specific investment recommendations, guaranteed return predictions, or personalized tax advice.''
     @ [CHR 0x0A, CHR 0x0A]
     @ ''However, I can help you with:'' @ [CHR 0x0A]
     @ ''- Understanding your current portfolio allocation and risk exposure'' @ [CHR 0x0A]
     @ ''- Explaining financial concepts and investment strategies'' @ [CHR 0x0A]
     @ ''- Analyzing historical performance and metrics'' @ [CHR 0x0A]
     @ ''- Comparing different asset classes and their characteristics'' @ [CHR 0x0A, CHR 0x0A]
     @ ''Please rephrase your question, and I'' @ [CHR 0x27]
     @ ''ll do my best to provide educational information.''"

definition blockedDisclaimer :: string where
  "blockedDisclaimer =
     ''This response was generated because your query appeared to request specific investment advice, which we cannot provide.''"

definition getDisclaimers :: "QueryIntent \<Rightarrow> string list" where
  "getDisclaimers intent =
     (let base = [''This information is AI-generated and for educational purposes only.'',
                  ''This does not constitute investment, tax, or legal advice.'',
                  ''Past performance does not guarantee future results.'']
      in case intent of
           IntentTax \<Rightarrow> base @ [''Consult a qualified tax professional for personalized tax advice.'']
         | IntentRisk \<Rightarrow>
             base @ [''Risk assessments are based on historical data and may not reflect future conditions.'']
         | IntentProjection \<Rightarrow>
             base @ [''Projections are hypothetical and based on assumptions that may not materialize.'']
         | _ \<Rightarrow> base)"

fun mentionLoop :: "string \<Rightarrow> Holding list \<Rightarrow> Source list" where
  "mentionLoop response [] = []"
| "mentionLoop response (h # hs) =
     (if Contains response (Ticker h)
      then \<lparr> SourceType = ''holding'', Reference = Ticker h, Description = Name h, URL = [] \<rparr>
           # mentionLoop response hs
      else mentionLoop response hs)"

fun uniqueLoop :: "string list \<Rightarrow> Source list \<Rightarrow> Source list" where
  "uniqueLoop seen [] = []"
| "uniqueLoop seen (src # rest) =
     (if Reference src \<in> set seen then uniqueLoop seen rest
      else src # uniqueLoop (Reference src # seen) rest)"

definition extractSources :: "string \<Rightarrow> Portfolio option \<Rightarrow> Source list" where
  "extractSources response portfolio =
     (case portfolio of
        None \<Rightarrow> []
      | Some p \<Rightarrow> uniqueLoop [] (mentionLoop response (Holdings p)))"

text \<open>
  What one call of \<open>Ask\<close> takes from outside: the two fresh UUIDs, the clock at entry,
  at the cache lookup (or the early answer) and after the remote call, the orders in
  which the ranges of \<open>Get\<close> and of \<open>evictOldest\<close> visit the cache, and the remote side.
\<close>

record AskEnv =
  newQueryID :: string
  newResponseID :: string
  startTime :: int
  midTime :: int
  endTime :: int
  getOrder :: "string list"
  setOrder :: "string list"
  reqFails :: bool
  http :: "nat \<Rightarrow> httpResult"

definition Milliseconds :: "int \<Rightarrow> int" where
  "Milliseconds d = d sdiv 1000000"

definition blockedResponse :: "Config \<Rightarrow> AskEnv \<Rightarrow> store \<Rightarrow> Query \<Rightarrow> QueryIntent \<Rightarrow> addr \<times> store" where
  "blockedResponse c env st query intent =
     (let (ds, st1) = allocStrs st [blockedDisclaimer] in
      allocResp st1
        \<lparr> ID = newResponseID env,
          QueryID = q_ID query,
          Text = refusalText,
          Sources = NilSlice,
          Disclaimers = ds,
          Model = SimpleModel c,
          Intent = intent,
          TokensUsed = zeroUsage,
          Cached = False,
          ProcessingMs = Milliseconds (midTime env - startTime env),
          Timestamp = midTime env \<rparr>)"

text \<open>An assignment to fields of the object behind a pointer.\<close>

definition updResp :: "store \<Rightarrow> addr \<Rightarrow> (Response \<Rightarrow> Response) \<Rightarrow> store" where
  "updResp st a f =
     (case resps st a of None \<Rightarrow> st | Some r \<Rightarrow> st\<lparr> resps := (resps st)(a \<mapsto> f r) \<rparr>)"

record AskResult =
  result :: "error + addr"
  askQuery :: Query
  service :: Service
  memory :: store
  httpCalls :: nat

text \<open>
  The part of \<open>Ask\<close> after a cache miss.  The two prompts only make up the request
  sent to the remote model and are not modelled.
\<close>

definition askRemote :: "(string \<Rightarrow> string) \<Rightarrow> (rune \<Rightarrow> rune) \<Rightarrow> AskEnv \<Rightarrow> Service \<Rightarrow> store
    \<Rightarrow> Query \<Rightarrow> Portfolio option \<Rightarrow> QueryIntent \<Rightarrow> AskResult" where
  "askRemote sha lower env s st query portfolio intent =
     (let model = SelectModel (cfg s) intent (q_Text query);
          (res, calls) = callClaude (cfg s) (reqFails env) (http env)
      in case res of
           Inl e \<Rightarrow>
             \<lparr> result = Inl (ErrClaudeAPI e), askQuery = query, service = s, memory = st,
               httpCalls = calls \<rparr>
         | Inr (response, usage) \<Rightarrow>
             let s1 = trackUsage (q_UserID query) usage s;
                 (a, st1) = allocResp st
                    \<lparr> ID = newResponseID env,
                      QueryID = q_ID query,
                      Text = response,
                      Sources = NilSlice,
                      Disclaimers = NilSlice,
                      Model = model,
                      Intent = intent,
                      TokensUsed = usage,
                      Cached = False,
                      ProcessingMs = Milliseconds (endTime env - startTime env),
                      Timestamp = endTime env \<rparr>;
                 st2 = (if EnableDisclaimers (cfg s1)
                        then (let (ds, st') = allocStrs st1 (getDisclaimers intent)
                              in updResp st' a (\<lambda>r. r\<lparr> Disclaimers := ds \<rparr>))
                        else st1);
                 (srcs, st3) = allocSrcs st2 (extractSources response portfolio);
                 st4 = updResp st3 a (\<lambda>r. r\<lparr> Sources := srcs \<rparr>);
                 s2 = (if CacheEnabled (cfg s1)
                       then s1\<lparr> svcCache := Set sha lower (svcCache s1) (endTime env) (setOrder env)
                                                (q_Text query) (q_PortfolioID query) (Some a) \<rparr>
                       else s1);
                 (al, st5) = Log (auditor s2) st4 (endTime env) query a
             in \<lparr> result = Inr a, askQuery = query, service = s2\<lparr> auditor := al \<rparr>, memory = st5,
                  httpCalls = calls \<rparr>)"

definition Ask :: "(string \<Rightarrow> string) \<Rightarrow> (rune \<Rightarrow> rune) \<Rightarrow> AskEnv \<Rightarrow> Service \<Rightarrow> store \<Rightarrow> Query
    \<Rightarrow> Portfolio option \<Rightarrow> AskResult" where
  "Ask sha lower env s st query0 portfolio =
     (let query = query0\<lparr> q_ID := (if q_ID query0 = [] then newQueryID env else q_ID query0),
                          q_Timestamp := startTime env \<rparr>;
          (err, s1) = checkRateLimits (startTime env) (q_UserID query) s
      in case err of
           Some e \<Rightarrow>
             \<lparr> result = Inl e, askQuery = query, service = s1, memory = st, httpCalls = 0 \<rparr>
         | None \<Rightarrow>
             let intent = ClassifyIntent lower (q_Text query) in
             if intent = IntentUnsupported then
               (let (a, st1) = blockedResponse (cfg s1) env st query intent in
                \<lparr> result = Inr a, askQuery = query, service = s1, memory = st1, httpCalls = 0 \<rparr>)
             else
               let (cached, c1, st1) =
                     (if CacheEnabled (cfg s1)
                      then Get sha lower (svcCache s1) st (midTime env) (getOrder env)
                             (q_Text query) (q_PortfolioID query)
                      else (None, svcCache s1, st));
                   s2 = s1\<lparr> svcCache := c1 \<rparr>
               in case cached of
                    Some a \<Rightarrow>
                      \<lparr> result = Inr a, askQuery = query, service = s2,
                        memory = updResp st1 a
                          (\<lambda>r. r\<lparr> Cached := True, QueryID := q_ID query,
                                   ProcessingMs := Milliseconds (midTime env - startTime env) \<rparr>),
                        httpCalls = 0 \<rparr>
                  | None \<Rightarrow> askRemote sha lower env s2 st1 query portfolio intent)"





section \<open>Notions used in the statements\<close>

text \<open>
  Every key of a reachable cache is the digest of its entry's normalised query, a bar
  and its portfolio id, the normalised query holding no bar; \<open>cacheInv\<close> collects what
  holds of every reachable cache.  \<open>hashedStrings c\<close> are the strings whose digests are the
  keys of \<open>c\<close>.
\<close>

definition hashedOf :: "CacheEntry \<Rightarrow> string" where
  "hashedOf e = Query e @ ''|'' @ PortfolioID e"

definition hashedStrings :: "QueryCache \<Rightarrow> string set" where
  "hashedStrings c = hashedOf ` ran (cache c)"

definition keysHashed :: "(string \<Rightarrow> string) \<Rightarrow> QueryCache \<Rightarrow> bool" where
  "keysHashed sha c \<longleftrightarrow>
     (\<forall>h e. cache c h = Some e \<longrightarrow> h = sha (hashedOf e) \<and> CHR ''|'' \<notin> set (Query e))"

definition cacheInv :: "(string \<Rightarrow> string) \<Rightarrow> QueryCache \<Rightarrow> bool" where
  "cacheInv sha c \<longleftrightarrow>
     finite (dom (cache c)) \<and> maxEntries c = 10000 \<and> lenCache c \<le> maxEntries c
     \<and> keysHashed sha c"

text \<open>
  \<open>sortedUpTo i es\<close>: the first \<open>i\<close> entries are in order of age and none of them is
  younger than a later entry (what the outer sorting loop has achieved after \<open>i\<close> rounds).
  \<open>bumped c c'\<close>: the cache \<open>c'\<close> is \<open>c\<close>, but for the hit counter of at most one entry.
\<close>

definition sortedUpTo :: "nat \<Rightarrow> entryAge list \<Rightarrow> bool" where
  "sortedUpTo i es \<longleftrightarrow>
     sorted (map age (take i es))
     \<and> (\<forall>x \<in> set (take i es). \<forall>y \<in> set (drop i es). age x \<le> age y)"

definition bumped :: "QueryCache \<Rightarrow> QueryCache \<Rightarrow> bool" where
  "bumped c c' \<longleftrightarrow>
     c' = c \<or> (\<exists>h e. cache c h = Some e
                 \<and> c' = c\<lparr> cache := (cache c)(h \<mapsto> e\<lparr> HitCount := HitCount e + 1 \<rparr>) \<rparr>)"

text \<open>
  A store is well formed when nothing lives at or beyond the next free address and the
  slices of every live response lie within live arrays.  The content of a response is
  its scalar fields together with the elements of its \<open>Sources\<close> and \<open>Disclaimers\<close>; its
  footprint is the object and the two backing arrays.  A mutation of an object writes
  only inside its footprint and to newly allocated addresses.
\<close>

definition sliceIn :: "(addr \<rightharpoonup> 'a list) \<Rightarrow> slice \<Rightarrow> bool" where
  "sliceIn arrs sl =
     (case sl of NilSlice \<Rightarrow> True
      | Slice a i n \<Rightarrow> (case arrs a of None \<Rightarrow> False | Some xs \<Rightarrow> i + n \<le> length xs))"

definition wfStore :: "store \<Rightarrow> bool" where
  "wfStore s \<longleftrightarrow>
     (\<forall>b. nxt s \<le> b \<longrightarrow> resps s b = None \<and> srcArrs s b = None \<and> strArrs s b = None)
     \<and> (\<forall>b ro. resps s b = Some ro \<longrightarrow>
           sliceIn (srcArrs s) (Sources ro) \<and> sliceIn (strArrs s) (Disclaimers ro))"

definition respContent :: "store \<Rightarrow> addr \<Rightarrow> (Response \<times> Source list \<times> string list) option" where
  "respContent s a =
     (case resps s a of
        None \<Rightarrow> None
      | Some ro \<Rightarrow> Some (ro\<lparr> Sources := NilSlice, Disclaimers := NilSlice \<rparr>,
                         srcElems s (Sources ro), strElems s (Disclaimers ro)))"

definition sliceArr :: "slice \<Rightarrow> addr set" where
  "sliceArr sl = (case sl of NilSlice \<Rightarrow> {} | Slice a i n \<Rightarrow> {a})"

definition footprint :: "store \<Rightarrow> addr \<Rightarrow> addr set" where
  "footprint s a =
     {a} \<union> (case resps s a of None \<Rightarrow> {}
             | Some ro \<Rightarrow> sliceArr (Sources ro) \<union> sliceArr (Disclaimers ro))"

definition mutatesOnly :: "addr set \<Rightarrow> store \<Rightarrow> store \<Rightarrow> bool" where
  "mutatesOnly A s s' \<longleftrightarrow>
     nxt s \<le> nxt s'
     \<and> (\<forall>b. b < nxt s \<and> b \<notin> A \<longrightarrow>
           resps s' b = resps s b \<and> srcArrs s' b = srcArrs s b \<and> strArrs s' b = strArrs s b)"

section \<open>Example data\<close>

text \<open>
  Concrete states and calls on which the theorems below are exercised.  \<open>latinLower\<close>
  is a fragment of the lower-case table: the capital letters of Latin-1, \<open>U+0130\<close> and
  \<open>U+212A\<close>.  The identity function stands in for the digest.
\<close>

definition latinLower :: "rune \<Rightarrow> rune" where
  "latinLower r =
     (if (0xC0 \<le> r \<and> r \<le> 0xD6) \<or> (0xD8 \<le> r \<and> r \<le> 0xDE) then r + 32
      else if r = 0x130 then 0x69
      else if r = 0x212A then 0x6B
      else r)"


definition mkUsage :: "goint \<Rightarrow> goint \<Rightarrow> TokenUsage" where
  "mkUsage i out = \<lparr> Input = i, Output = out, Total = i + out \<rparr>"

definition examplePortfolio :: Portfolio where
  "examplePortfolio =
     \<lparr> TotalValue = 150000,
       Holdings =
         [\<lparr> Ticker = ''AAPL'', Name = ''Apple Inc'', MarketValue = 100000, CostBasis = 80000,
             AssetClass = AssetClassEquity, Sector = ''Technology'', Geography = ''US'' \<rparr>,
          \<lparr> Ticker = ''TSLA'', Name = ''Tesla Inc'', MarketValue = 50000, CostBasis = 65000,
             AssetClass = AssetClassEquity, Sector = ''Consumer Cyclical'', Geography = ''US'' \<rparr>] \<rparr>"

definition exampleEnv :: "int \<Rightarrow> (nat \<Rightarrow> httpResult) \<Rightarrow> AskEnv" where
  "exampleEnv t h =
     \<lparr> newQueryID = ''q-1'', newResponseID = ''r-1'', startTime = t, midTime = t,
       endTime = t + Second, getOrder = [], setOrder = [], reqFails = False, http = h \<rparr>"

definition exampleQuery :: "string \<Rightarrow> string \<Rightarrow> Query" where
  "exampleQuery user text =
     \<lparr> q_ID = [], q_UserID = user, q_Text = text, q_PortfolioID = ''p-1'', q_Context = [],
       q_Timestamp = 0 \<rparr>"

definition okHttp :: "nat \<Rightarrow> httpResult" where
  "okHttp i = HttpResp 200 (Body ''{}'' (Some ([''Your exposure is concentrated in AAPL.''], 120, 80)))"

definition firstAsk :: AskResult where
  "firstAsk = Ask (\<lambda>x. x) latinLower (exampleEnv Hour okHttp) (NewService None 0) emptyStore
       (exampleQuery ''alice'' ''What is my risk exposure?'') None"

definition entryAt :: "string \<Rightarrow> int \<Rightarrow> CacheEntry" where
  "entryAt q t = \<lparr> Query = q, QueryHash = q @ ''|p'', PortfolioID = ''p'', Response = None,
      Keywords = [], CreatedAt = t, HitCount = 0 \<rparr>"

definition smallCache :: QueryCache where
  "smallCache = \<lparr> cache = [''a|p'' \<mapsto> entryAt ''a'' 5, ''b|p'' \<mapsto> entryAt ''b'' 3, ''c|p'' \<mapsto> entryAt ''c'' 9],
      ttl = Hour, threshold = round64 (92 / 100), maxEntries = 3 \<rparr>"

definition testResponse :: Response where
  "testResponse = \<lparr> ID = ''test-id'', QueryID = [], Text = ''Test response'', Sources = NilSlice,
      Disclaimers = NilSlice, Model = [], Intent = IntentAnalytical, TokensUsed = zeroUsage,
      Cached = False, ProcessingMs = 0, Timestamp = 0 \<rparr>"

definition testStore :: store where
  "testStore = \<lparr> resps = [0 \<mapsto> testResponse], srcArrs = Map.empty, strArrs = Map.empty, nxt = 1 \<rparr>"

definition threeEntries :: QueryCache where
  "threeEntries =
     Set (\<lambda>x. x) latinLower
       (Set (\<lambda>x. x) latinLower
          (Set (\<lambda>x. x) latinLower (NewQueryCache Hour (round64 (92 / 100))) 10 []
             ''query 1'' ''portfolio-1'' (Some 0))
          20 [''query 1|portfolio-1''] ''query 2'' ''portfolio-1'' (Some 0))
       30 [''query 1|portfolio-1'', ''query 2|portfolio-1''] ''query 3'' ''portfolio-2'' (Some 0)"

definition threeKeys :: "string list" where
  "threeKeys = [''query 1|portfolio-1'', ''query 2|portfolio-1'', ''query 3|portfolio-2'']"

definition entryOf :: "string \<Rightarrow> string \<Rightarrow> int \<Rightarrow> CacheEntry" where
  "entryOf q p t = \<lparr> Query = normalizeQuery latinLower q,
      QueryHash = hashQuery (\<lambda>x. x) latinLower q p, PortfolioID = p,
      Response = Some 0, Keywords = extractKeywords latinLower q, CreatedAt = t, HitCount = 0 \<rparr>"

definition richResponse :: Response where
  "richResponse =
     \<lparr> ID = ''r-1'', QueryID = ''q-1'', Text = ''Your exposure is concentrated in AAPL.'',
       Sources = Slice 0 0 1, Disclaimers = Slice 1 0 2, Model = ModelSonnet, Intent = IntentRisk,
       TokensUsed = \<lparr> Input = 120, Output = 80, Total = 200 \<rparr>, Cached = False,
       ProcessingMs = 900, Timestamp = 10 \<rparr>"

definition richStore :: store where
  "richStore =
     \<lparr> resps = [2 \<mapsto> richResponse],
       srcArrs = [0 \<mapsto> [\<lparr> SourceType = ''holding'', Reference = ''AAPL'', Description = ''Apple Inc'', URL = [] \<rparr>]],
       strArrs = [1 \<mapsto> [''This does not constitute investment, tax, or legal advice.'',
                          ''Past performance does not guarantee future results.'']],
       nxt = 3 \<rparr>"

definition tamper :: "store \<Rightarrow> store" where
  "tamper s =
     s\<lparr> resps := (resps s)(5 \<mapsto> (the (resps s 5))\<lparr> Text := ''tampered'', Cached := True \<rparr>),
        srcArrs := (srcArrs s)(3 \<mapsto> []),
        strArrs := (strArrs s)(4 \<mapsto> [''tampered'', ''tampered'']) \<rparr>"

section \<open>The string and number models on examples\<close>

text \<open>
  Lower-casing beyond ASCII (\<open>U+0130\<close>, \<open>U+212A\<close>, an invalid byte), splitting at a
  no-break space, and a similarity score that is \<open>23/25\<close> in exact arithmetic and falls
  just below the threshold \<open>0.92\<close> in \<open>float64\<close>.
\<close>

lemma ToLower_examples:
  "ToLower latinLower ([CHR 0xC4, CHR 0xB0] @ ''NSIDER'') = ''insider''"
  "ToLower latinLower (''RIS'' @ [CHR 0xE2, CHR 0x84, CHR 0xAA]) = ''risk''"
  "ToLower latinLower (''A'' @ [CHR 0xFF]) = ''a'' @ [CHR 0xEF, CHR 0xBF, CHR 0xBD]"
  by code_simp+

lemma Fields_examples:
  "Fields (''tax'' @ [CHR 0xC2, CHR 0xA0] @ ''loss  now'') = [''tax'', ''loss'', ''now'']"
  "normalizeQuery latinLower (''  Tax-Loss,'' @ [CHR 0xC2, CHR 0xA0] @ ''50% of $9? '') = ''taxloss 50% of $9''"
  by code_simp+

lemma similarity_example:
  "calculateSimilarity ''risk report'' [''risk'']
     \<lparr> Query = ''risk report now'', QueryHash = [], PortfolioID = ''p'', Response = None,
       Keywords = [''risk''], CreatedAt = 0, HitCount = 0 \<rparr>
   = Finite (517913957147607 / 562949953421312)"
  "\<not> fge (Finite (517913957147607 / 562949953421312)) (round64 (92 / 100))"
  by code_simp+

section \<open>Properties of the intent classifier\<close>

text \<open>
  C2. Whenever the lower-cased query text contains one of the blocklist phrases,
  \<open>ClassifyIntent\<close> answers \<open>IntentUnsupported\<close>, whatever other keywords the text holds.
  The text is any byte string and the lower-casing is that of \<open>strings.ToLower\<close>, for
  every case table.
\<close>

theorem ClassifyIntent_blocklist_first:
  assumes "p \<in> set blockedPatterns" and "Contains (ToLower lower query) p"
  shows "ClassifyIntent lower query = IntentUnsupported"
proof -
  have any: "containsAny t ps" if "p \<in> set ps" "Contains t p" for t ps
    using that by (induction ps) auto
  from assms have "isBlockedQuery (ToLower lower query)"
    unfolding isBlockedQuery_def by (rule any)
  then show ?thesis
    by (simp add: ClassifyIntent_def)
qed

text \<open>
  Two texts: one in ASCII that also holds tax and risk keywords, and one that starts with
  \<open>U+0130\<close> (the bytes \<open>C4 B0\<close>), which lower-cases to \<open>i\<close>.
\<close>

theorem ClassifyIntent_blocklist_first_witness:
  "''insider'' \<in> set blockedPatterns
   \<and> Contains (ToLower latinLower ''Any INSIDER tax tips on risk?'') ''insider''
   \<and> containsAny (ToLower latinLower ''Any INSIDER tax tips on risk?'') taxKeywords
   \<and> ClassifyIntent latinLower ''Any INSIDER tax tips on risk?'' = IntentUnsupported
   \<and> Contains (ToLower latinLower ([CHR 0xC4, CHR 0xB0] @ ''nsider trading'')) ''insider''
   \<and> ClassifyIntent latinLower ([CHR 0xC4, CHR 0xB0] @ ''nsider trading'') = IntentUnsupported"
proof -
  have a: "''insider'' \<in> set blockedPatterns" by code_simp
  have b: "Contains (ToLower latinLower ''Any INSIDER tax tips on risk?'') ''insider''" by code_simp
  have c: "containsAny (ToLower latinLower ''Any INSIDER tax tips on risk?'') taxKeywords" by code_simp
  have d: "Contains (ToLower latinLower ([CHR 0xC4, CHR 0xB0] @ ''nsider trading'')) ''insider''"
    by code_simp
  from a b c d ClassifyIntent_blocklist_first [OF a b] ClassifyIntent_blocklist_first [OF a d]
  show ?thesis by simp
qed

text \<open>
  C6, as the spec states it: every query with a tax keyword and a risk keyword is
  classified \<open>IntentTax\<close>.  The blocklist check runs first, so a query that also holds a
  blocked phrase is \<open>IntentUnsupported\<close>.
\<close>

theorem ClassifyIntent_tax_risk_counterexample:
  "containsAny (ToLower latinLower ''Is a risk-free return taxable?'') taxKeywords
   \<and> containsAny (ToLower latinLower ''Is a risk-free return taxable?'') riskKeywords
   \<and> ClassifyIntent latinLower ''Is a risk-free return taxable?'' \<noteq> IntentTax"
  by code_simp

text \<open>
  C6, amended. Every query whose lower-cased text holds a tax keyword and a risk keyword
  and no blocklist phrase is classified \<open>IntentTax\<close>: the tax group is tried before the
  risk group.
\<close>

theorem ClassifyIntent_tax_before_risk:
  assumes "\<not> isBlockedQuery (ToLower lower query)"
    and "containsAny (ToLower lower query) taxKeywords"
    and "containsAny (ToLower lower query) riskKeywords"
  shows "ClassifyIntent lower query = IntentTax"
  using assms by (simp add: ClassifyIntent_def)

text \<open>
  A text with keywords of both groups, and one whose capital letters include \<open>U+0130\<close>:
  there the lower-cased text holds the blocked phrase \<open>insider\<close>, the hypothesis fails and
  the result is \<open>IntentUnsupported\<close>.
\<close>

theorem ClassifyIntent_tax_before_risk_witness:
  "\<not> isBlockedQuery (ToLower latinLower ''What is the tax impact of my risk exposure?'')
   \<and> containsAny (ToLower latinLower ''What is the tax impact of my risk exposure?'') taxKeywords
   \<and> containsAny (ToLower latinLower ''What is the tax impact of my risk exposure?'') riskKeywords
   \<and> ClassifyIntent latinLower ''What is the tax impact of my risk exposure?'' = IntentTax
   \<and> isBlockedQuery (ToLower latinLower
         (''Tax and risk of '' @ [CHR 0xC4, CHR 0xB0] @ ''NS'' @ [CHR 0xC4, CHR 0xB0] @ ''DER trading''))
   \<and> ClassifyIntent latinLower
         (''Tax and risk of '' @ [CHR 0xC4, CHR 0xB0] @ ''NS'' @ [CHR 0xC4, CHR 0xB0] @ ''DER trading'')
       = IntentUnsupported"
proof -
  have a: "\<not> isBlockedQuery (ToLower latinLower ''What is the tax impact of my risk exposure?'')"
    by code_simp
  have b: "containsAny (ToLower latinLower ''What is the tax impact of my risk exposure?'') taxKeywords"
    by code_simp
  have c: "containsAny (ToLower latinLower ''What is the tax impact of my risk exposure?'') riskKeywords"
    by code_simp
  have d: "isBlockedQuery (ToLower latinLower
         (''Tax and risk of '' @ [CHR 0xC4, CHR 0xB0] @ ''NS'' @ [CHR 0xC4, CHR 0xB0] @ ''DER trading''))"
    by code_simp
  have e: "ClassifyIntent latinLower
         (''Tax and risk of '' @ [CHR 0xC4, CHR 0xB0] @ ''NS'' @ [CHR 0xC4, CHR 0xB0] @ ''DER trading'')
       = IntentUnsupported"
    by code_simp
  from a b c d e ClassifyIntent_tax_before_risk [OF a b c] show ?thesis by simp
qed

text \<open>
  C9. \<open>ClassifyIntent\<close> never answers \<open>IntentCompliance\<close>: its results are
  \<open>IntentUnsupported\<close>, \<open>IntentTax\<close>, \<open>IntentRisk\<close>, \<open>IntentProjection\<close>, \<open>IntentResearch\<close>,
  \<open>IntentComparison\<close>, \<open>IntentAnalytical\<close> and \<open>IntentSimple\<close> only.
\<close>

theorem ClassifyIntent_never_compliance:
  "ClassifyIntent lower query \<noteq> IntentCompliance
   \<and> ClassifyIntent lower query \<in> {IntentUnsupported, IntentTax, IntentRisk, IntentProjection,
         IntentResearch, IntentComparison, IntentAnalytical, IntentSimple}"
  by (simp add: ClassifyIntent_def Let_def)

theorem ClassifyIntent_never_compliance_witness:
  "ClassifyIntent latinLower ''Is this compliance question about regulatory rules?'' = IntentAnalytical
   \<and> ClassifyIntent latinLower ''Is this compliance question about regulatory rules?'' \<noteq> IntentCompliance"
proof -
  have "ClassifyIntent latinLower ''Is this compliance question about regulatory rules?'' = IntentAnalytical"
    by code_simp
  with ClassifyIntent_never_compliance [of latinLower "''Is this compliance question about regulatory rules?''"]
  show ?thesis by simp
qed

section \<open>Properties of the usage limiter\<close>

lemma tokensOf_trackUsage:
  "tokensOf (trackUsage u usage s) v = tokensOf s v + (if v = u then Total usage else 0)"
  by (simp add: tokensOf_def trackUsage_def)

lemma trackUsage_frame:
  "cfg (trackUsage u usage s) = cfg s" "lastReset (trackUsage u usage s) = lastReset s"
  by (simp_all add: trackUsage_def)

lemma tokensOf_recordAll: "tokensOf (recordAll recs s) u = tokensOf s u + usageSum u recs"
  by (induction recs s rule: recordAll.induct) (simp_all add: tokensOf_trackUsage)

lemma recordAll_frame:
  "cfg (recordAll recs s) = cfg s" "lastReset (recordAll recs s) = lastReset s"
  by (induction recs s rule: recordAll.induct) (simp_all add: trackUsage_frame)

lemma usageSum_exact: "usageSum u recs = word_of_int (exactSum u recs)"
  by (induction u recs rule: usageSum.induct) simp_all

text \<open>
  C4, as the spec states it: usage that sums to the budget or more gets the user
  rejected, and after a gap of more than 24 hours the user is accepted again.  Two
  configurations and histories where this fails.  With a budget of \<open>0\<close> the check rejects
  a user whose total is \<open>0\<close>, so the user is still rejected after the reset.  With the
  default budget, two recorded usages of \<open>2^63 - 1\<close> and \<open>1\<close> tokens sum to \<open>2^63\<close>, far
  above the budget, but the running total has wrapped around to \<open>- 2^63\<close> and the user is
  accepted.
\<close>

theorem usage_limiter_counterexample:
  "DailyTokenBudget (cfg (NewService (Some (DefaultConfig\<lparr> DailyTokenBudget := 0 \<rparr>)) 0)) = 0
   \<and> 24 * Hour < 25 * Hour - lastReset (NewService (Some (DefaultConfig\<lparr> DailyTokenBudget := 0 \<rparr>)) 0)
   \<and> fst (checkRateLimits (25 * Hour) ''alice''
        (recordAll [(''alice'', mkUsage 600000 400000)]
           (NewService (Some (DefaultConfig\<lparr> DailyTokenBudget := 0 \<rparr>)) 0))) = Some ErrRateLimit
   \<and> sint (DailyTokenBudget (cfg (NewService None 0)))
        \<le> exactSum ''alice'' [(''alice'', mkUsage 9223372036854775807 0), (''alice'', mkUsage 1 0)]
   \<and> fst (checkRateLimits Hour ''alice''
        (recordAll [(''alice'', mkUsage 9223372036854775807 0), (''alice'', mkUsage 1 0)]
           (NewService None 0))) = None"
  by (simp add: checkRateLimits_def NewService_def DefaultConfig_def tokensOf_def trackUsage_def
      mkUsage_def Hour_def Minute_def Second_def)

text \<open>
  C4, amended.  \<open>trackUsage\<close> keeps for each user the sum of the recorded usage in
  64-bit arithmetic; this running total is the true sum whenever the true sum fits 64
  bits.  Within 24 hours of the last reset, \<open>checkRateLimits\<close> rejects \<open>u\<close> once the
  running total of \<open>u\<close> has reached the budget, and accepts every user \<open>v\<close> whose running
  total is below the budget.  At a check more than 24 hours after the last reset the
  whole table is emptied and the reset time moves; the user is then accepted if the
  budget is positive, and rejected otherwise.
\<close>

theorem usage_limiter_budget_and_reset:
  "tokensOf (recordAll recs s0) u = tokensOf s0 u + usageSum u recs
   \<and> (- (2 ^ 63) \<le> exactSum u recs \<and> exactSum u recs < 2 ^ 63
        \<longrightarrow> sint (usageSum u recs) = exactSum u recs)
   \<and> (DailyTokenBudget (cfg s0) \<le>s tokensOf s0 u + usageSum u recs
          \<and> now - lastReset s0 \<le> 24 * Hour
        \<longrightarrow> fst (checkRateLimits now u (recordAll recs s0)) = Some ErrRateLimit)
   \<and> (tokensOf s0 v + usageSum v recs <s DailyTokenBudget (cfg s0)
          \<and> now - lastReset s0 \<le> 24 * Hour
        \<longrightarrow> fst (checkRateLimits now v (recordAll recs s0)) = None)
   \<and> (24 * Hour < later - lastReset s0
        \<longrightarrow> snd (checkRateLimits later u (recordAll recs s0))
              = (recordAll recs s0)\<lparr> dailyTokens := Map.empty, lastReset := later \<rparr>
            \<and> fst (checkRateLimits later u (recordAll recs s0))
              = (if 0 <s DailyTokenBudget (cfg s0) then None else Some ErrRateLimit))"
proof (intro conjI impI)
  show "tokensOf (recordAll recs s0) u = tokensOf s0 u + usageSum u recs"
    by (rule tokensOf_recordAll)
next
  assume "- (2 ^ 63) \<le> exactSum u recs \<and> exactSum u recs < 2 ^ 63"
  then show "sint (usageSum u recs) = exactSum u recs"
    unfolding usageSum_exact by (simp add: sint_sbintrunc' signed_take_bit_int_eq_self)
next
  assume "DailyTokenBudget (cfg s0) \<le>s tokensOf s0 u + usageSum u recs
            \<and> now - lastReset s0 \<le> 24 * Hour"
  then show "fst (checkRateLimits now u (recordAll recs s0)) = Some ErrRateLimit"
    by (simp add: checkRateLimits_def recordAll_frame tokensOf_recordAll Let_def)
next
  assume a: "tokensOf s0 v + usageSum v recs <s DailyTokenBudget (cfg s0)
            \<and> now - lastReset s0 \<le> 24 * Hour"
  then have "\<not> DailyTokenBudget (cfg s0) \<le>s tokensOf s0 v + usageSum v recs"
    by (simp add: signed.not_le)
  with a show "fst (checkRateLimits now v (recordAll recs s0)) = None"
    by (simp add: checkRateLimits_def recordAll_frame tokensOf_recordAll Let_def)
next
  assume "24 * Hour < later - lastReset s0"
  then show "snd (checkRateLimits later u (recordAll recs s0))
      = (recordAll recs s0)\<lparr> dailyTokens := Map.empty, lastReset := later \<rparr>"
    by (simp add: checkRateLimits_def recordAll_frame Let_def)
next
  assume "24 * Hour < later - lastReset s0"
  then show "fst (checkRateLimits later u (recordAll recs s0))
      = (if 0 <s DailyTokenBudget (cfg s0) then None else Some ErrRateLimit)"
    by (simp add: checkRateLimits_def recordAll_frame tokensOf_def Let_def signed.not_less)
qed

text \<open>
  The default configuration (budget 1,000,000) and three recorded usages: 1,000,000
  tokens for alice, 15 for bob.
\<close>

theorem usage_limiter_budget_and_reset_witness:
  "- (2 ^ 63) \<le> exactSum ''alice'' [(''alice'', mkUsage 500000 100000), (''bob'', mkUsage 10 5),
                                      (''alice'', mkUsage 300000 100000)]
   \<and> exactSum ''alice'' [(''alice'', mkUsage 500000 100000), (''bob'', mkUsage 10 5),
                          (''alice'', mkUsage 300000 100000)] < 2 ^ 63
   \<and> sint (usageSum ''alice'' [(''alice'', mkUsage 500000 100000), (''bob'', mkUsage 10 5),
                                (''alice'', mkUsage 300000 100000)]) = 1000000
   \<and> DailyTokenBudget (cfg (NewService None 0))
        \<le>s tokensOf (NewService None 0) ''alice''
            + usageSum ''alice'' [(''alice'', mkUsage 500000 100000), (''bob'', mkUsage 10 5),
                                  (''alice'', mkUsage 300000 100000)]
   \<and> Hour - lastReset (NewService None 0) \<le> 24 * Hour
   \<and> fst (checkRateLimits Hour ''alice''
        (recordAll [(''alice'', mkUsage 500000 100000), (''bob'', mkUsage 10 5),
                    (''alice'', mkUsage 300000 100000)] (NewService None 0))) = Some ErrRateLimit
   \<and> tokensOf (NewService None 0) ''bob''
        + usageSum ''bob'' [(''alice'', mkUsage 500000 100000), (''bob'', mkUsage 10 5),
                            (''alice'', mkUsage 300000 100000)]
       <s DailyTokenBudget (cfg (NewService None 0))
   \<and> fst (checkRateLimits Hour ''bob''
        (recordAll [(''alice'', mkUsage 500000 100000), (''bob'', mkUsage 10 5),
                    (''alice'', mkUsage 300000 100000)] (NewService None 0))) = None
   \<and> 24 * Hour < 25 * Hour - lastReset (NewService None 0)
   \<and> 0 <s DailyTokenBudget (cfg (NewService None 0))
   \<and> fst (checkRateLimits (25 * Hour) ''alice''
        (recordAll [(''alice'', mkUsage 500000 100000), (''bob'', mkUsage 10 5),
                    (''alice'', mkUsage 300000 100000)] (NewService None 0))) = None
   \<and> dailyTokens (snd (checkRateLimits (25 * Hour) ''alice''
        (recordAll [(''alice'', mkUsage 500000 100000), (''bob'', mkUsage 10 5),
                    (''alice'', mkUsage 300000 100000)] (NewService None 0)))) = Map.empty"
proof -
  let ?recs = "[(''alice'', mkUsage 500000 100000), (''bob'', mkUsage 10 5),
                (''alice'', mkUsage 300000 100000)]"
  let ?s = "NewService None 0"
  have facts:
    "DailyTokenBudget (cfg ?s) = 1000000"
    "lastReset ?s = 0"
    "tokensOf ?s ''alice'' = 0"
    "tokensOf ?s ''bob'' = 0"
    "usageSum ''alice'' ?recs = 1000000"
    "usageSum ''bob'' ?recs = 15"
    "exactSum ''alice'' ?recs = 1000000"
    by (simp_all add: NewService_def DefaultConfig_def tokensOf_def mkUsage_def)
  note t = usage_limiter_budget_and_reset [of ?recs ?s "''alice''" Hour "''bob''" "25 * Hour"]
  from t have s: "- (2 ^ 63) \<le> exactSum ''alice'' ?recs \<and> exactSum ''alice'' ?recs < 2 ^ 63
        \<longrightarrow> sint (usageSum ''alice'' ?recs) = exactSum ''alice'' ?recs"
    by (elim conjE)
  from t have a: "DailyTokenBudget (cfg ?s) \<le>s tokensOf ?s ''alice'' + usageSum ''alice'' ?recs
          \<and> Hour - lastReset ?s \<le> 24 * Hour
        \<longrightarrow> fst (checkRateLimits Hour ''alice'' (recordAll ?recs ?s)) = Some ErrRateLimit"
    by (elim conjE)
  from t have b: "tokensOf ?s ''bob'' + usageSum ''bob'' ?recs <s DailyTokenBudget (cfg ?s)
          \<and> Hour - lastReset ?s \<le> 24 * Hour
        \<longrightarrow> fst (checkRateLimits Hour ''bob'' (recordAll ?recs ?s)) = None"
    by (elim conjE)
  from t have c: "24 * Hour < 25 * Hour - lastReset ?s
        \<longrightarrow> snd (checkRateLimits (25 * Hour) ''alice'' (recordAll ?recs ?s))
              = (recordAll ?recs ?s)\<lparr> dailyTokens := Map.empty, lastReset := 25 * Hour \<rparr>
            \<and> fst (checkRateLimits (25 * Hour) ''alice'' (recordAll ?recs ?s))
              = (if 0 <s DailyTokenBudget (cfg ?s) then None else Some ErrRateLimit)"
    by (elim conjE)
  have h1: "- (2 ^ 63) \<le> exactSum ''alice'' ?recs \<and> exactSum ''alice'' ?recs < 2 ^ 63"
    unfolding facts by simp
  have h2: "DailyTokenBudget (cfg ?s) \<le>s tokensOf ?s ''alice'' + usageSum ''alice'' ?recs
          \<and> Hour - lastReset ?s \<le> 24 * Hour"
    unfolding facts by (simp add: Hour_def Minute_def Second_def)
  have h3: "tokensOf ?s ''bob'' + usageSum ''bob'' ?recs <s DailyTokenBudget (cfg ?s)
          \<and> Hour - lastReset ?s \<le> 24 * Hour"
    unfolding facts by (simp add: Hour_def Minute_def Second_def)
  have h4: "24 * Hour < 25 * Hour - lastReset ?s"
    unfolding facts by (simp add: Hour_def Minute_def Second_def)
  have h5: "0 <s DailyTokenBudget (cfg ?s)"
    unfolding facts by (simp add: word_sless_alt)
  from s h1 have r1: "sint (usageSum ''alice'' ?recs) = 1000000"
    unfolding facts by simp
  from a h2 have r2: "fst (checkRateLimits Hour ''alice'' (recordAll ?recs ?s)) = Some ErrRateLimit"
    by blast
  from b h3 have r3: "fst (checkRateLimits Hour ''bob'' (recordAll ?recs ?s)) = None"
    by blast
  from c h4 h5 have r4: "fst (checkRateLimits (25 * Hour) ''alice'' (recordAll ?recs ?s)) = None"
    and r5: "dailyTokens (snd (checkRateLimits (25 * Hour) ''alice'' (recordAll ?recs ?s))) = Map.empty"
    by simp_all
  from h1 h2 h3 h4 h5 r1 r2 r3 r4 r5 show ?thesis
    by blast
qed

section \<open>Properties of the tax analyzer\<close>

text \<open>
  C8. For a portfolio of exactly two holdings, one with an unrealized gain of 20,000 and
  one with an unrealized loss of 15,000 (in either order), and a loss threshold of at
  most 15,000 (the default is 100), the summary has non-zero total gains, non-zero total
  losses, exactly one harvest opportunity and a non-empty disclaimer list.  For a nil
  portfolio the analyzer still returns a summary: it has no opportunity and a non-empty
  disclaimer list.
\<close>

theorem AnalyzeTaxOpportunities_gain_and_loss:
  assumes "minLossThreshold t \<le> 15000"
    and "Holdings p = [g, l] \<or> Holdings p = [l, g]"
    and "GainLoss g = 20000" and "GainLoss l = - 15000"
  shows "TotalUnrealizedGains (AnalyzeTaxOpportunities t month (Some p)) \<noteq> 0
       \<and> TotalUnrealizedLosses (AnalyzeTaxOpportunities t month (Some p)) \<noteq> 0
       \<and> length (Opportunities (AnalyzeTaxOpportunities t month (Some p))) = 1
       \<and> t_Disclaimers (AnalyzeTaxOpportunities t month (Some p)) \<noteq> []
       \<and> Opportunities (AnalyzeTaxOpportunities t month None) = []
       \<and> t_Disclaimers (AnalyzeTaxOpportunities t month None) \<noteq> []"
proof -
  have nil: "AnalyzeTaxOpportunities t month None = emptySummary"
    by (simp add: AnalyzeTaxOpportunities_def)
  have "TotalUnrealizedGains (AnalyzeTaxOpportunities t month (Some p)) = 20000"
    "TotalUnrealizedLosses (AnalyzeTaxOpportunities t month (Some p)) = 15000"
    "length (Opportunities (AnalyzeTaxOpportunities t month (Some p))) = 1"
    "t_Disclaimers (AnalyzeTaxOpportunities t month (Some p)) \<noteq> []"
    using assms by (auto simp: AnalyzeTaxOpportunities_def Let_def emptySummary_def)
  then show ?thesis
    by (simp add: nil emptySummary_def)
qed

theorem AnalyzeTaxOpportunities_gain_and_loss_witness:
  "minLossThreshold NewTaxOptimizer \<le> 15000
   \<and> GainLoss (Holdings examplePortfolio ! 0) = 20000
   \<and> GainLoss (Holdings examplePortfolio ! 1) = - 15000
   \<and> TotalUnrealizedGains (AnalyzeTaxOpportunities NewTaxOptimizer 11 (Some examplePortfolio)) \<noteq> 0
   \<and> TotalUnrealizedLosses (AnalyzeTaxOpportunities NewTaxOptimizer 11 (Some examplePortfolio)) \<noteq> 0
   \<and> length (Opportunities (AnalyzeTaxOpportunities NewTaxOptimizer 11 (Some examplePortfolio))) = 1
   \<and> t_Disclaimers (AnalyzeTaxOpportunities NewTaxOptimizer 11 (Some examplePortfolio)) \<noteq> []
   \<and> Opportunities (AnalyzeTaxOpportunities NewTaxOptimizer 11 None) = []"
proof -
  let ?g = "Holdings examplePortfolio ! 0" and ?l = "Holdings examplePortfolio ! 1"
  have a: "minLossThreshold NewTaxOptimizer \<le> 15000"
    by (simp add: NewTaxOptimizer_def)
  have b: "Holdings examplePortfolio = [?g, ?l] \<or> Holdings examplePortfolio = [?l, ?g]"
    by (simp add: examplePortfolio_def)
  have c: "GainLoss ?g = 20000" and d: "GainLoss ?l = - 15000"
    by (simp_all add: examplePortfolio_def GainLoss_def)
  from a c d AnalyzeTaxOpportunities_gain_and_loss [OF a b c d, of 11]
  show ?thesis by simp
qed

section \<open>Properties of Ask\<close>

lemma checkRateLimits_frame:
  "cfg (snd (checkRateLimits now u s)) = cfg s"
  "svcCache (snd (checkRateLimits now u s)) = svcCache s"
  "auditor (snd (checkRateLimits now u s)) = auditor s"
  by (simp_all add: checkRateLimits_def Let_def)

lemma checkRateLimits_within:
  "now - lastReset s \<le> 24 * Hour \<Longrightarrow> snd (checkRateLimits now u s) = s"
  by (simp add: checkRateLimits_def Let_def)

lemma ClassifyIntent_blocked:
  "isBlockedQuery (ToLower lower text) \<Longrightarrow> ClassifyIntent lower text = IntentUnsupported"
  by (simp add: ClassifyIntent_def)

lemma Ask_blocked_eq:
  assumes ok: "fst (checkRateLimits (startTime env) (q_UserID query) s) = None"
    and blocked: "isBlockedQuery (ToLower lower (q_Text query))"
  shows "Ask sha lower env s st query portfolio =
    (let q = query\<lparr> q_ID := (if q_ID query = [] then newQueryID env else q_ID query),
                          q_Timestamp := startTime env \<rparr>;
         s1 = snd (checkRateLimits (startTime env) (q_UserID query) s);
         (a, st1) = blockedResponse (cfg s1) env st q IntentUnsupported
     in \<lparr> result = Inr a, askQuery = q, service = s1, memory = st1, httpCalls = 0 \<rparr>)"
proof -
  obtain s1 where c: "checkRateLimits (startTime env) (q_UserID query) s = (None, s1)"
    using ok by (cases "checkRateLimits (startTime env) (q_UserID query) s") auto
  show ?thesis
    by (simp add: Ask_def c ClassifyIntent_blocked blocked split: prod.splits)
qed

lemma askRemote_audit:
  assumes remote: "callClaude (cfg s) (reqFails env) (http env) = (Inr (text, usage), calls)"
  shows "(\<exists>a. result (askRemote sha lower env s st query portfolio intent) = Inr a)
     \<and> httpCalls (askRemote sha lower env s st query portfolio intent) = calls
     \<and> (enabled (auditor s) \<longrightarrow>
          (\<exists>e. entries (auditor (service (askRemote sha lower env s st query portfolio intent)))
                 = entries (auditor s) @ [e]
             \<and> a_ResponseID e = newResponseID env \<and> a_QueryID e = q_ID query
             \<and> a_UserID e = q_UserID query \<and> a_QueryText e = q_Text query
             \<and> a_QueryIntent e = intent \<and> a_TokensUsed e = usage \<and> a_Cached e = False))
     \<and> (\<not> enabled (auditor s) \<longrightarrow>
          entries (auditor (service (askRemote sha lower env s st query portfolio intent)))
            = entries (auditor s))"
  by (cases "EnableDisclaimers (cfg s)"; cases "CacheEnabled (cfg s)"; cases "enabled (auditor s)")
     (simp_all add: askRemote_def remote Let_def trackUsage_def allocResp_def allocStrs_def
       allocSrcs_def updResp_def Log_def split: prod.splits)

lemma Ask_miss_eq:
  assumes ok: "fst (checkRateLimits (startTime env) (q_UserID query) s) = None"
    and notBlocked: "ClassifyIntent lower (q_Text query) \<noteq> IntentUnsupported"
    and miss: "CacheEnabled (cfg s) \<longrightarrow>
        fst (Get sha lower (svcCache s) st (midTime env) (getOrder env) (q_Text query) (q_PortfolioID query)) = None"
  shows "\<exists>s' st'. Ask sha lower env s st query portfolio
      = askRemote sha lower env s' st'
          (query\<lparr> q_ID := (if q_ID query = [] then newQueryID env else q_ID query),
                   q_Timestamp := startTime env \<rparr>)
          portfolio (ClassifyIntent lower (q_Text query))
      \<and> cfg s' = cfg s \<and> auditor s' = auditor s"
proof -
  obtain s1 where c: "checkRateLimits (startTime env) (q_UserID query) s = (None, s1)"
    using ok by (cases "checkRateLimits (startTime env) (q_UserID query) s") auto
  have s1: "cfg s1 = cfg s" "svcCache s1 = svcCache s" "auditor s1 = auditor s"
    using checkRateLimits_frame [of "startTime env" "q_UserID query" s] by (simp_all add: c)
  show ?thesis
  proof (cases "CacheEnabled (cfg s)")
    case True
    with miss obtain c1 st1 where g:
      "Get sha lower (svcCache s) st (midTime env) (getOrder env) (q_Text query) (q_PortfolioID query)
         = (None, c1, st1)"
      by (cases "Get sha lower (svcCache s) st (midTime env) (getOrder env) (q_Text query) (q_PortfolioID query)")
         auto
    have "Ask sha lower env s st query portfolio
      = askRemote sha lower env (s1\<lparr>svcCache := c1\<rparr>) st1
          (query\<lparr> q_ID := (if q_ID query = [] then newQueryID env else q_ID query),
                   q_Timestamp := startTime env \<rparr>)
          portfolio (ClassifyIntent lower (q_Text query))"
      using notBlocked True by (simp add: Ask_def c Let_def s1 g)
    then show ?thesis
      using s1 by (intro exI [of _ "s1\<lparr>svcCache := c1\<rparr>"] exI [of _ st1]) simp
  next
    case False
    have "Ask sha lower env s st query portfolio
      = askRemote sha lower env (s1\<lparr>svcCache := svcCache s1\<rparr>) st
          (query\<lparr> q_ID := (if q_ID query = [] then newQueryID env else q_ID query),
                   q_Timestamp := startTime env \<rparr>)
          portfolio (ClassifyIntent lower (q_Text query))"
      using notBlocked False by (simp add: Ask_def c Let_def s1)
    then show ?thesis
      using s1 by (intro exI [of _ "s1\<lparr>svcCache := svcCache s1\<rparr>"] exI [of _ st]) simp
  qed
qed

lemma blocked_text: "isBlockedQuery (ToLower latinLower ''Should I buy AAPL?'')"
  by code_simp

lemma risk_text: "ClassifyIntent latinLower ''What is my risk exposure?'' = IntentRisk"
  by code_simp

lemma new_ok:
  "fst (checkRateLimits Hour u (NewService c 0)) = None
     \<longleftrightarrow> 0 <s DailyTokenBudget (case c of None \<Rightarrow> DefaultConfig | Some c \<Rightarrow> c)"
  by (auto simp add: checkRateLimits_def NewService_def tokensOf_def Let_def Hour_def Minute_def
      Second_def signed.not_le)

lemma retry_ok: "retryLoop okHttp 3 0 None = (Some (okHttp 0), 1)"
  by (subst retryLoop.simps) (simp add: attemptOk_def okHttp_def)

lemma call_ok: "MaxRetries c = 3 \<Longrightarrow> callClaude c False okHttp
   = (Inr (''Your exposure is concentrated in AAPL.'', \<lparr> Input = 120, Output = 80, Total = 200 \<rparr>), 1)"
  by (simp add: callClaude_def retry_ok) (simp add: okHttp_def)

lemmas eval_defs = Ask_def exampleEnv_def exampleQuery_def checkRateLimits_def NewService_def
      tokensOf_def DefaultConfig_def risk_text Let_def Get_def NewQueryCache_def
      askRemote_def call_ok Hour_def Minute_def Second_def NewAuditLogger_def Log_def
      allocResp_def allocStrs_def allocSrcs_def updResp_def emptyStore_def trackUsage_def
      Set_def lenCache_def hit_def cloneResponse_def extractSources_def copyElems_def
      sliceLen_def srcElems_def strElems_def word_sle_eq


text \<open>
  C10, as the spec states it: every blocked query is answered with the refusal, and the
  daily totals stay as they were.  The rate-limit check runs before the classifier: a
  user at the budget gets the rate-limit error instead of the refusal, and a check more
  than 24 hours after the last reset empties the usage table.
\<close>

theorem Ask_blocked_counterexample:
  "isBlockedQuery (ToLower latinLower ''Should I buy AAPL?'')
   \<and> result (Ask (\<lambda>x. x) latinLower (exampleEnv Hour okHttp)
         (recordAll [(''alice'', mkUsage 600000 400000)] (NewService None 0)) emptyStore
         (exampleQuery ''alice'' ''Should I buy AAPL?'') None) = Inl ErrRateLimit
   \<and> tokensOf (recordAll [(''bob'', mkUsage 10 5)] (NewService None 0)) ''bob'' = 15
   \<and> result (Ask (\<lambda>x. x) latinLower (exampleEnv (25 * Hour) okHttp)
         (recordAll [(''bob'', mkUsage 10 5)] (NewService None 0)) emptyStore
         (exampleQuery ''alice'' ''Should I buy AAPL?'') None) = Inr 1
   \<and> tokensOf (service (Ask (\<lambda>x. x) latinLower (exampleEnv (25 * Hour) okHttp)
         (recordAll [(''bob'', mkUsage 10 5)] (NewService None 0)) emptyStore
         (exampleQuery ''alice'' ''Should I buy AAPL?'') None)) ''bob'' = 0"
  by (simp add: blocked_text ClassifyIntent_blocked blockedResponse_def mkUsage_def eval_defs)

text \<open>
  C10, amended.  For a query whose text matches the blocklist and a user whom the
  rate-limit check accepts, \<open>Ask\<close> returns a new Response holding the fixed refusal
  text and its disclaimer, with zero token usage and \<open>Cached = False\<close>; it sends no
  request to the remote model, records no usage and stores nothing in the cache: the
  service is left as the rate-limit check left it (usage table untouched within 24 hours
  of the last reset), and no object that was in the store changes.
\<close>

theorem Ask_blocked_refusal:
  assumes ok: "fst (checkRateLimits (startTime env) (q_UserID query) s) = None"
    and blocked: "isBlockedQuery (ToLower lower (q_Text query))"
  shows "result (Ask sha lower env s st query portfolio) = Inr (Suc (nxt st))
    \<and> resps (memory (Ask sha lower env s st query portfolio)) (Suc (nxt st))
        = Some \<lparr> ID = newResponseID env,
                 QueryID = (if q_ID query = [] then newQueryID env else q_ID query),
                 Text = refusalText,
                 Sources = NilSlice,
                 Disclaimers = Slice (nxt st) 0 1,
                 Model = SimpleModel (cfg s),
                 Intent = IntentUnsupported,
                 TokensUsed = zeroUsage,
                 Cached = False,
                 ProcessingMs = Milliseconds (midTime env - startTime env),
                 Timestamp = midTime env \<rparr>
    \<and> strArrs (memory (Ask sha lower env s st query portfolio)) (nxt st) = Some [blockedDisclaimer]
    \<and> httpCalls (Ask sha lower env s st query portfolio) = 0
    \<and> service (Ask sha lower env s st query portfolio)
        = snd (checkRateLimits (startTime env) (q_UserID query) s)
    \<and> svcCache (service (Ask sha lower env s st query portfolio)) = svcCache s
    \<and> auditor (service (Ask sha lower env s st query portfolio)) = auditor s
    \<and> (startTime env - lastReset s \<le> 24 * Hour
        \<longrightarrow> dailyTokens (service (Ask sha lower env s st query portfolio)) = dailyTokens s)
    \<and> (\<forall>b. b < nxt st \<longrightarrow>
          resps (memory (Ask sha lower env s st query portfolio)) b = resps st b
          \<and> srcArrs (memory (Ask sha lower env s st query portfolio)) b = srcArrs st b
          \<and> strArrs (memory (Ask sha lower env s st query portfolio)) b = strArrs st b)"
  unfolding Ask_blocked_eq [OF ok blocked]
  by (simp add: Let_def blockedResponse_def allocStrs_def allocResp_def checkRateLimits_frame
      checkRateLimits_within)



theorem Ask_blocked_refusal_witness:
  "fst (checkRateLimits Hour ''alice'' (NewService None 0)) = None
   \<and> isBlockedQuery (ToLower latinLower ''Should I buy AAPL?'')
   \<and> result (Ask (\<lambda>x. x) latinLower (exampleEnv Hour okHttp) (NewService None 0) emptyStore
         (exampleQuery ''alice'' ''Should I buy AAPL?'') None) = Inr 1
   \<and> httpCalls (Ask (\<lambda>x. x) latinLower (exampleEnv Hour okHttp) (NewService None 0) emptyStore
         (exampleQuery ''alice'' ''Should I buy AAPL?'') None) = 0
   \<and> dailyTokens (service (Ask (\<lambda>x. x) latinLower (exampleEnv Hour okHttp) (NewService None 0) emptyStore
         (exampleQuery ''alice'' ''Should I buy AAPL?'') None)) = dailyTokens (NewService None 0)
   \<and> svcCache (service (Ask (\<lambda>x. x) latinLower (exampleEnv Hour okHttp) (NewService None 0) emptyStore
         (exampleQuery ''alice'' ''Should I buy AAPL?'') None)) = svcCache (NewService None 0)"
proof -
  let ?env = "exampleEnv Hour okHttp" and ?q = "exampleQuery ''alice'' ''Should I buy AAPL?''"
  have ok0: "fst (checkRateLimits Hour ''alice'' (NewService None 0)) = None"
    by (simp add: new_ok DefaultConfig_def word_sless_alt)
  then have ok: "fst (checkRateLimits (startTime ?env) (q_UserID ?q) (NewService None 0)) = None"
    by (simp add: exampleEnv_def exampleQuery_def)
  have b: "isBlockedQuery (ToLower latinLower (q_Text ?q))"
    by (simp add: exampleQuery_def blocked_text)
  have within: "startTime ?env - lastReset (NewService None 0) \<le> 24 * Hour"
    by (simp add: exampleEnv_def NewService_def Hour_def Minute_def Second_def)
  note f = Ask_blocked_refusal [OF ok b, of "\<lambda>x. x" emptyStore None]
  from f have r: "result (Ask (\<lambda>x. x) latinLower ?env (NewService None 0) emptyStore ?q None)
      = Inr (Suc (nxt emptyStore))"
    by (rule conjunct1)
  from f have h: "httpCalls (Ask (\<lambda>x. x) latinLower ?env (NewService None 0) emptyStore ?q None) = 0"
    by blast
  from f within have d: "dailyTokens (service (Ask (\<lambda>x. x) latinLower ?env (NewService None 0) emptyStore ?q None))
      = dailyTokens (NewService None 0)"
    by blast
  from f have c: "svcCache (service (Ask (\<lambda>x. x) latinLower ?env (NewService None 0) emptyStore ?q None))
      = svcCache (NewService None 0)"
    by blast
  show ?thesis
    unfolding r h d c using ok0 by (simp add: blocked_text emptyStore_def)
qed

text \<open>
  The audit step is the last statement of \<open>Ask\<close>.  A call that passes the rate-limit
  check, is not blocked, misses the cache (or runs with the cache switched off) and gets
  an answer from the remote model reaches it: when the audit log is enabled, exactly one
  entry for this call (its query, user, response id, intent and token usage) is appended
  to the log; when the log is disabled, \<open>Log\<close> returns at once.
\<close>

lemma Ask_remote_audit:
  assumes ok: "fst (checkRateLimits (startTime env) (q_UserID query) s) = None"
    and notBlocked: "ClassifyIntent lower (q_Text query) \<noteq> IntentUnsupported"
    and miss: "CacheEnabled (cfg s) \<longrightarrow>
        fst (Get sha lower (svcCache s) st (midTime env) (getOrder env) (q_Text query) (q_PortfolioID query)) = None"
    and remote: "fst (callClaude (cfg s) (reqFails env) (http env)) = Inr (text, usage)"
  shows "(\<exists>a. result (Ask sha lower env s st query portfolio) = Inr a)
     \<and> (enabled (auditor s) \<longrightarrow>
          (\<exists>e. entries (auditor (service (Ask sha lower env s st query portfolio)))
                 = entries (auditor s) @ [e]
             \<and> a_ResponseID e = newResponseID env
             \<and> a_QueryID e = (if q_ID query = [] then newQueryID env else q_ID query)
             \<and> a_UserID e = q_UserID query \<and> a_QueryText e = q_Text query
             \<and> a_QueryIntent e = ClassifyIntent lower (q_Text query)
             \<and> a_TokensUsed e = usage \<and> a_Cached e = False))
     \<and> (\<not> enabled (auditor s) \<longrightarrow>
          entries (auditor (service (Ask sha lower env s st query portfolio))) = entries (auditor s))"
proof -
  let ?q = "query\<lparr> q_ID := (if q_ID query = [] then newQueryID env else q_ID query),
                     q_Timestamp := startTime env \<rparr>"
  from Ask_miss_eq [OF ok notBlocked miss, of portfolio]
  obtain s' st' where eq: "Ask sha lower env s st query portfolio
      = askRemote sha lower env s' st' ?q portfolio (ClassifyIntent lower (q_Text query))"
    and s': "cfg s' = cfg s" "auditor s' = auditor s"
    by blast
  obtain calls where r: "callClaude (cfg s') (reqFails env) (http env) = (Inr (text, usage), calls)"
    using remote s' by (cases "callClaude (cfg s) (reqFails env) (http env)") auto
  from askRemote_audit [OF r, of sha lower st' ?q portfolio "ClassifyIntent lower (q_Text query)"]
  show ?thesis
    unfolding eq by (simp add: s')
qed

text \<open>
  C1. Every call of \<open>Ask\<close> that returns a Response should append exactly one audit
  entry, blocked and cached responses included.  The two early answers of \<open>Ask\<close>, the
  refusal of a blocked query and the response found in the cache, return before the audit
  step.  With the default configuration (audit log enabled): a blocked query is answered
  with a Response and the log stays empty; a first risk query is answered by the remote
  model and logged; the same query asked again two seconds later is answered from the
  cache, with \<open>Cached\<close> set, and the log still holds the one entry of the first call.
\<close>

theorem Ask_early_answers_not_audited:
  "enabled (auditor (NewService None 0))
   \<and> result (Ask (\<lambda>x. x) latinLower (exampleEnv Hour okHttp) (NewService None 0) emptyStore
        (exampleQuery ''alice'' ''Should I buy AAPL?'') None) = Inr 1
   \<and> entries (auditor (service (Ask (\<lambda>x. x) latinLower (exampleEnv Hour okHttp) (NewService None 0)
        emptyStore (exampleQuery ''alice'' ''Should I buy AAPL?'') None))) = []
   \<and> result firstAsk = Inr 0
   \<and> length (entries (auditor (service firstAsk))) = 1
   \<and> result (Ask (\<lambda>x. x) latinLower (exampleEnv (Hour + 2 * Second) okHttp) (service firstAsk)
        (memory firstAsk) (exampleQuery ''alice'' ''What is my risk exposure?'') None) = Inr 6
   \<and> map_option Cached (resps (memory (Ask (\<lambda>x. x) latinLower (exampleEnv (Hour + 2 * Second) okHttp)
        (service firstAsk) (memory firstAsk)
        (exampleQuery ''alice'' ''What is my risk exposure?'') None)) 6) = Some True
   \<and> httpCalls (Ask (\<lambda>x. x) latinLower (exampleEnv (Hour + 2 * Second) okHttp) (service firstAsk)
        (memory firstAsk) (exampleQuery ''alice'' ''What is my risk exposure?'') None) = 0
   \<and> entries (auditor (service (Ask (\<lambda>x. x) latinLower (exampleEnv (Hour + 2 * Second) okHttp)
        (service firstAsk) (memory firstAsk)
        (exampleQuery ''alice'' ''What is my risk exposure?'') None)))
       = entries (auditor (service firstAsk))"
proof -
  have blocked:
    "enabled (auditor (NewService None 0))
     \<and> result (Ask (\<lambda>x. x) latinLower (exampleEnv Hour okHttp) (NewService None 0) emptyStore
          (exampleQuery ''alice'' ''Should I buy AAPL?'') None) = Inr 1
     \<and> entries (auditor (service (Ask (\<lambda>x. x) latinLower (exampleEnv Hour okHttp) (NewService None 0)
          emptyStore (exampleQuery ''alice'' ''Should I buy AAPL?'') None))) = []"
    by (simp add: blocked_text ClassifyIntent_blocked blockedResponse_def eval_defs)
  have first: "result firstAsk = Inr 0 \<and> length (entries (auditor (service firstAsk))) = 1"
    by (simp add: firstAsk_def eval_defs)
  have second:
    "result (Ask (\<lambda>x. x) latinLower (exampleEnv (Hour + 2 * Second) okHttp) (service firstAsk)
        (memory firstAsk) (exampleQuery ''alice'' ''What is my risk exposure?'') None) = Inr 6
     \<and> map_option Cached (resps (memory (Ask (\<lambda>x. x) latinLower (exampleEnv (Hour + 2 * Second) okHttp)
        (service firstAsk) (memory firstAsk)
        (exampleQuery ''alice'' ''What is my risk exposure?'') None)) 6) = Some True
     \<and> httpCalls (Ask (\<lambda>x. x) latinLower (exampleEnv (Hour + 2 * Second) okHttp) (service firstAsk)
        (memory firstAsk) (exampleQuery ''alice'' ''What is my risk exposure?'') None) = 0
     \<and> entries (auditor (service (Ask (\<lambda>x. x) latinLower (exampleEnv (Hour + 2 * Second) okHttp)
        (service firstAsk) (memory firstAsk)
        (exampleQuery ''alice'' ''What is my risk exposure?'') None)))
       = entries (auditor (service firstAsk))"
    by (simp add: firstAsk_def eval_defs)
  from blocked first second show ?thesis
    by blast
qed

section \<open>Properties of the cache: size bound and eviction\<close>

lemma keptRune_no_bar: "keptRune r \<Longrightarrow> CHR ''|'' \<notin> set (EncodeRune r)"
proof -
  assume k: "keptRune r"
  then have r: "0 \<le> r" "r \<le> 0x7A" by (auto simp: keptRune_def)
  then have "EncodeRune r = [char_of r]" by (simp add: EncodeRune_def)
  moreover have "char_of r \<noteq> CHR ''|''"
    using r by (simp add: char_of_eq_iff take_bit_eq_mod)
  ultimately show ?thesis by simp
qed
lemma normalizeQuery_no_bar: "CHR ''|'' \<notin> set (normalizeQuery lower q)"
  by (auto simp: normalizeQuery_def dest: keptRune_no_bar)

lemma invalidateLoop_apply:
  "invalidateLoop p order m h =
     (case m h of
        None \<Rightarrow> None
      | Some e \<Rightarrow> if PortfolioID e = p \<and> h \<in> set order then None else Some e)"
proof (induction order arbitrary: m)
  case Nil
  show ?case by (simp split: option.splits)
next
  case (Cons k ks)
  show ?case
  proof (cases "m k")
    case None
    then have "invalidateLoop p (k # ks) m h = invalidateLoop p ks m h" by simp
    also have "\<dots> = (case m h of None \<Rightarrow> None
        | Some e \<Rightarrow> if PortfolioID e = p \<and> h \<in> set ks then None else Some e)"
      by (rule Cons.IH)
    finally show ?thesis using None by (cases "h = k") (simp_all split: option.splits)
  next
    case (Some e)
    show ?thesis
    proof (cases "PortfolioID e = p")
      case True
      with Some have "invalidateLoop p (k # ks) m h = invalidateLoop p ks (m(k := None)) h" by simp
      also have "\<dots> = (case (m(k := None)) h of None \<Rightarrow> None
          | Some e \<Rightarrow> if PortfolioID e = p \<and> h \<in> set ks then None else Some e)"
        by (rule Cons.IH)
      finally show ?thesis using Some True by (cases "h = k") (simp_all split: option.splits)
    next
      case False
      with Some have "invalidateLoop p (k # ks) m h = invalidateLoop p ks m h" by simp
      also have "\<dots> = (case m h of None \<Rightarrow> None
          | Some e \<Rightarrow> if PortfolioID e = p \<and> h \<in> set ks then None else Some e)"
        by (rule Cons.IH)
      finally show ?thesis using Some False by (cases "h = k") (simp_all split: option.splits)
    qed
  qed
qed

lemma cleanupLoop_apply:
  "cleanupLoop now t order m h =
     (case m h of
        None \<Rightarrow> None
      | Some e \<Rightarrow> if now - CreatedAt e \<ge> t \<and> h \<in> set order then None else Some e)"
proof (induction order arbitrary: m)
  case Nil
  show ?case by (simp split: option.splits)
next
  case (Cons k ks)
  show ?case
  proof (cases "m k")
    case None
    then have "cleanupLoop now t (k # ks) m h = cleanupLoop now t ks m h" by simp
    also have "\<dots> = (case m h of None \<Rightarrow> None
        | Some e \<Rightarrow> if now - CreatedAt e \<ge> t \<and> h \<in> set ks then None else Some e)"
      by (rule Cons.IH)
    finally show ?thesis using None by (cases "h = k") (simp_all split: option.splits)
  next
    case (Some e)
    show ?thesis
    proof (cases "now - CreatedAt e \<ge> t")
      case True
      with Some have "cleanupLoop now t (k # ks) m h = cleanupLoop now t ks (m(k := None)) h" by simp
      also have "\<dots> = (case (m(k := None)) h of None \<Rightarrow> None
          | Some e \<Rightarrow> if now - CreatedAt e \<ge> t \<and> h \<in> set ks then None else Some e)"
        by (rule Cons.IH)
      finally show ?thesis using Some True by (cases "h = k") (simp_all split: option.splits)
    next
      case False
      with Some have "cleanupLoop now t (k # ks) m h = cleanupLoop now t ks m h" by simp
      also have "\<dots> = (case m h of None \<Rightarrow> None
          | Some e \<Rightarrow> if now - CreatedAt e \<ge> t \<and> h \<in> set ks then None else Some e)"
        by (rule Cons.IH)
      finally show ?thesis using Some False by (cases "h = k") (simp_all split: option.splits)
    qed
  qed
qed

lemma Invalidate_keep:
  "cache (Invalidate c order p) h = None \<or> cache (Invalidate c order p) h = cache c h"
  by (simp add: Invalidate_def invalidateLoop_apply split: option.splits)

lemma cleanup_keep:
  "cache (cleanup c order now) h = None \<or> cache (cleanup c order now) h = cache c h"
  by (simp add: cleanup_def cleanupLoop_apply split: option.splits)

lemma sortInner_take:
  "i < j \<Longrightarrow> take i (sortInner i j es) = take i es"
proof (induction i j es rule: sortInner.induct)
  case (1 i j es)
  show ?case
  proof (cases "j < length es")
    case True
    with 1 show ?thesis by (subst sortInner.simps) (simp split: if_splits)
  next
    case False
    then show ?thesis by (subst sortInner.simps) simp
  qed
qed

lemma mset_drop_swap:
  assumes "i < j" "j < length es"
  shows "mset (drop i (es[i := es ! j, j := es ! i])) = mset (drop i es)"
proof -
  have "drop i (es[i := es ! j, j := es ! i]) = (drop i es)[0 := (drop i es) ! (j - i), j - i := (drop i es) ! 0]"
    using assms by (simp add: drop_update_swap)
  moreover have "mset ((drop i es)[0 := (drop i es) ! (j - i), j - i := (drop i es) ! 0]) = mset (drop i es)"
    using assms by (intro mset_swap) auto
  ultimately show ?thesis by simp
qed

lemma sortInner_mset_drop:
  "i < j \<Longrightarrow> mset (drop i (sortInner i j es)) = mset (drop i es)"
proof (induction i j es rule: sortInner.induct)
  case (1 i j es)
  show ?case
  proof (cases "j < length es")
    case True
    with 1 show ?thesis
      by (subst sortInner.simps) (simp add: mset_drop_swap split: if_splits)
  next
    case False
    then show ?thesis by (subst sortInner.simps) simp
  qed
qed

lemma sortInner_min:
  "i < j \<Longrightarrow> \<forall>k. i < k \<and> k < j \<and> k < length es \<longrightarrow> age (es ! i) \<le> age (es ! k)
   \<Longrightarrow> i < k \<Longrightarrow> k < length es \<Longrightarrow> age (sortInner i j es ! i) \<le> age (sortInner i j es ! k)"
proof (induction i j es arbitrary: k rule: sortInner.induct)
  case (1 i j es)
  show ?case
  proof (cases "j < length es")
    case True
    let ?es' = "if age (es ! j) < age (es ! i) then es[i := es ! j, j := es ! i] else es"
    have len: "length ?es' = length es" by simp
    have inv: "\<forall>k. i < k \<and> k < j + 1 \<and> k < length ?es' \<longrightarrow> age (?es' ! i) \<le> age (?es' ! k)"
      using 1(3) 1(2) True by (auto simp: nth_list_update less_Suc_eq)
    have "age (sortInner i (j + 1) ?es' ! i) \<le> age (sortInner i (j + 1) ?es' ! k)"
      using 1(1) [OF True _ inv, of k] 1(2) 1(4) 1(5) len by simp
    then show ?thesis using True by (subst (1 2) sortInner.simps) simp
  next
    case False
    with 1 show ?thesis by (subst (1 2) sortInner.simps) auto
  qed
qed

lemma sortInner_mset: "i < j \<Longrightarrow> mset (sortInner i j es) = mset es"
proof -
  assume ij: "i < j"
  have "mset (sortInner i j es) = mset (take i (sortInner i j es)) + mset (drop i (sortInner i j es))"
    by (metis append_take_drop_id mset_append)
  also have "\<dots> = mset (take i es) + mset (drop i es)"
    using ij by (simp add: sortInner_take sortInner_mset_drop)
  also have "\<dots> = mset es"
    by (metis append_take_drop_id mset_append)
  finally show ?thesis .
qed

lemma sortedUpTo_step:
  assumes inv: "sortedUpTo i es" and lt: "i + 1 < length es"
  shows "sortedUpTo (i + 1) (sortInner i (i + 1) es)"
proof -
  let ?es' = "sortInner i (i + 1) es"
  have len: "length ?es' = length es" by simp
  have tk: "take i ?es' = take i es" by (simp add: sortInner_take)
  have "mset (drop i ?es') = mset (drop i es)"
    by (rule sortInner_mset_drop) simp
  then have dr: "set (drop i ?es') = set (drop i es)"
    by (rule mset_eq_setD)
  have mn: "\<And>k. i < k \<Longrightarrow> k < length es \<Longrightarrow> age (?es' ! i) \<le> age (?es' ! k)"
    by (rule sortInner_min) auto
  have ilt: "i < length ?es'" using lt by simp
  have take_suc: "take (i + 1) ?es' = take i es @ [?es' ! i]"
    using take_Suc_conv_app_nth [OF ilt] tk by simp
  have "?es' ! i \<in> set (drop i ?es')"
    using Cons_nth_drop_Suc [OF ilt] by (metis list.set_intros(1))
  then have at_i: "?es' ! i \<in> set (drop i es)"
    using dr by simp
  have "set (drop (i + 1) ?es') \<subseteq> set (drop i ?es')"
    by (rule set_drop_subset_set_drop) simp
  then have drop_suc: "set (drop (i + 1) ?es') \<subseteq> set (drop i es)"
    using dr by simp
  have s1: "sorted (map age (take (i + 1) ?es'))"
    using inv at_i unfolding sortedUpTo_def take_suc
    by (simp add: sorted_append)
  have s2: "\<forall>x \<in> set (take (i + 1) ?es'). \<forall>y \<in> set (drop (i + 1) ?es'). age x \<le> age y"
  proof (intro ballI)
    fix x y assume x: "x \<in> set (take (i + 1) ?es')" and y: "y \<in> set (drop (i + 1) ?es')"
    from y obtain j where j: "j < length (drop (i + 1) ?es')" "drop (i + 1) ?es' ! j = y"
      unfolding in_set_conv_nth by blast
    then have k: "i + 1 \<le> i + 1 + j" "i + 1 + j < length ?es'" "y = ?es' ! (i + 1 + j)"
      by simp_all
    from x have "x \<in> set (take i es) \<or> x = ?es' ! i"
      unfolding take_suc by auto
    then show "age x \<le> age y"
    proof
      assume "x \<in> set (take i es)"
      with inv y drop_suc show ?thesis unfolding sortedUpTo_def by blast
    next
      assume "x = ?es' ! i"
      with k mn [of "i + 1 + j"] show ?thesis by simp
    qed
  qed
  from s1 s2 show ?thesis unfolding sortedUpTo_def by simp
qed

lemma sortOuter_sorted:
  "sortedUpTo i es \<Longrightarrow> sorted (map age (sortOuter i es))"
proof (induction i es rule: sortOuter.induct)
  case (1 i es)
  show ?case
  proof (cases "i + 1 < length es")
    case True
    have "sorted (map age (sortOuter (i + 1) (sortInner i (i + 1) es)))"
      using 1(1) [OF True] sortedUpTo_step [OF 1(2) True] by simp
    with True show ?thesis
      by (subst sortOuter.simps) simp
  next
    case False
    then have "length (drop i es) \<le> 1" by simp
    then have d: "sorted (map age (drop i es))"
      by (cases "drop i es") simp_all
    have "sorted (map age (take i es) @ map age (drop i es))"
      using 1(2) d unfolding sortedUpTo_def
      by (auto simp: sorted_append)
    moreover have "map age (take i es) @ map age (drop i es) = map age es"
      by (simp flip: map_append)
    ultimately have "sorted (map age es)" by simp
    with False show ?thesis by (subst sortOuter.simps) simp
  qed
qed

lemma sortOuter_mset: "mset (sortOuter i es) = mset es"
proof (induction i es rule: sortOuter.induct)
  case (1 i es)
  show ?case
  proof (cases "i + 1 < length es")
    case True
    with 1 show ?thesis by (subst sortOuter.simps) (simp add: sortInner_mset)
  next
    case False
    then show ?thesis by (subst sortOuter.simps) simp
  qed
qed

lemma sortOuter_0_sorted: "sorted (map age (sortOuter 0 es))"
  by (rule sortOuter_sorted) (simp add: sortedUpTo_def)

lemma fold_delete:
  "fold (\<lambda>e m. m(hash e := None)) xs m k = (if k \<in> hash ` set xs then None else m k)"
  by (induction xs arbitrary: m) auto

lemma rangeEntries_hash:
  "set order \<subseteq> dom m \<Longrightarrow> map hash (rangeEntries m order) = order"
  by (induction order) (auto simp: rangeEntries_def List.map_filter_simps)

lemma rangeEntries_age:
  "x \<in> set (rangeEntries m order) \<Longrightarrow> \<exists>e. m (hash x) = Some e \<and> age x = CreatedAt e"
  by (induction order) (auto simp: rangeEntries_def List.map_filter_simps split: option.splits)

lemma evictOldest_cache:
  "cache (evictOldest c order) h =
     (if h \<in> hash ` set (take (nat (evictCountOf (maxEntries c)))
                           (sortOuter 0 (rangeEntries (cache c) order)))
      then None else cache c h)"
  by (simp add: evictOldest_def Let_def fold_delete)

lemma evictOldest_fields:
  "ttl (evictOldest c order) = ttl c" "threshold (evictOldest c order) = threshold c"
  "maxEntries (evictOldest c order) = maxEntries c"
  by (simp_all add: evictOldest_def Let_def)

lemma evictOldest_props:
  assumes vo: "validOrder c order"
  defines "E \<equiv> dom (cache c) - dom (cache (evictOldest c order))"
  shows "card E = min (nat (evictCountOf (maxEntries c))) (card (dom (cache c)))"
    and "\<forall>h. cache (evictOldest c order) h = (if h \<in> E then None else cache c h)"
    and "\<forall>h e h' e'. h \<in> E \<and> cache c h = Some e \<and> cache (evictOldest c order) h' = Some e'
           \<longrightarrow> CreatedAt e \<le> CreatedAt e'"
proof -
  let ?n = "nat (evictCountOf (maxEntries c))"
  let ?es = "sortOuter 0 (rangeEntries (cache c) order)"
  let ?D = "hash ` set (take ?n ?es)"
  have sub: "set order \<subseteq> dom (cache c)" and dist: "distinct order" and seteq: "set order = dom (cache c)"
    using vo by (simp_all add: validOrder_def)
  have ms: "mset ?es = mset (rangeEntries (cache c) order)"
    by (rule sortOuter_mset)
  have "mset (map hash ?es) = mset (map hash (rangeEntries (cache c) order))"
    using ms by simp
  then have mh: "mset (map hash ?es) = mset order"
    by (simp add: rangeEntries_hash [OF sub])
  then have dh: "distinct (map hash ?es)"
    using dist by (metis mset_eq_imp_distinct_iff)
  have sh: "set (map hash ?es) = dom (cache c)"
    using mh seteq by (metis mset_eq_setD)
  have len: "length ?es = card (dom (cache c))"
    using mh dist seteq by (metis distinct_card length_map size_mset)
  have "?D \<subseteq> hash ` set ?es"
    by (rule image_mono) (rule set_take_subset)
  then have Dsub: "?D \<subseteq> dom (cache c)"
    using sh by simp
  have E: "E = ?D"
    unfolding E_def using Dsub by (auto simp: evictOldest_cache dom_def split: if_splits)
  have "distinct (map hash (take ?n ?es))"
    using dh by (simp add: distinct_take take_map [symmetric])
  then have "card ?D = length (take ?n ?es)"
    by (metis distinct_card length_map set_map)
  then show "card E = min ?n (card (dom (cache c)))"
    using E len by simp
  show "\<forall>h. cache (evictOldest c order) h = (if h \<in> E then None else cache c h)"
    unfolding E by (simp add: evictOldest_cache)
  have sorted: "sorted (map age ?es)" by (rule sortOuter_0_sorted)
  have split: "?es = take ?n ?es @ drop ?n ?es" by simp
  have ages: "\<forall>x \<in> set (take ?n ?es). \<forall>y \<in> set (drop ?n ?es). age x \<le> age y"
    using sorted by (subst (asm) split) (auto simp: sorted_append simp del: append_take_drop_id)
  have inmem: "\<And>x. x \<in> set ?es \<Longrightarrow> \<exists>e. cache c (hash x) = Some e \<and> age x = CreatedAt e"
    using ms rangeEntries_age by (metis mset_eq_setD)
  show "\<forall>h e h' e'. h \<in> E \<and> cache c h = Some e \<and> cache (evictOldest c order) h' = Some e'
           \<longrightarrow> CreatedAt e \<le> CreatedAt e'"
  proof (intro allI impI, elim conjE)
    fix h e h' e'
    assume h: "h \<in> E" and e: "cache c h = Some e" and e': "cache (evictOldest c order) h' = Some e'"
    from h obtain x where x: "x \<in> set (take ?n ?es)" "hash x = h" unfolding E by auto
    from e' have h'D: "h' \<notin> ?D" and ce': "cache c h' = Some e'"
      by (auto simp: evictOldest_cache split: if_splits)
    from ce' have "h' \<in> set (map hash ?es)" using sh by auto
    then obtain y where y: "y \<in> set ?es" "hash y = h'" by auto
    with h'D have "y \<notin> set (take ?n ?es)" by auto
    with y have yd: "y \<in> set (drop ?n ?es)"
      by (metis Un_iff append_take_drop_id set_append)
    from x have "x \<in> set ?es" by (auto dest: in_set_takeD)
    with inmem x e have ax: "age x = CreatedAt e" by fastforce
    from inmem y ce' have ay: "age y = CreatedAt e'" by fastforce
    from ages x(1) yd have "age x \<le> age y" by blast
    then show "CreatedAt e \<le> CreatedAt e'" by (simp only: ax ay)
  qed
qed

lemma dom_shrink:
  assumes "\<And>h. m' h = None \<or> m' h = m h"
  shows "dom m' \<subseteq> dom m"
proof
  fix x assume "x \<in> dom m'"
  then obtain y where "m' x = Some y" by blast
  with assms [of x] have "m x = Some y" by simp
  then show "x \<in> dom m" by blast
qed

lemma hit_cache:
  "fst (snd (hit c s h e)) = c\<lparr> cache := (cache c)(h \<mapsto> e\<lparr> HitCount := HitCount e + 1 \<rparr>) \<rparr>"
  by (simp add: hit_def Let_def split: prod.splits)

lemma hit_bumped: "cache c h = Some e \<Longrightarrow> bumped c (fst (snd (hit c s h e)))"
  unfolding bumped_def hit_cache by blast

lemma scan_cache: "bumped c (fst (snd (scan c s now nq qk p order)))"
proof (induction order)
  case Nil
  show ?case by (simp add: bumped_def)
next
  case (Cons h hs)
  show ?case
  proof (cases "cache c h")
    case None
    with Cons show ?thesis by simp
  next
    case (Some e)
    show ?thesis
    proof (cases "PortfolioID e = p \<and> now - CreatedAt e < ttl c
                  \<and> fge (calculateSimilarity nq qk e) (threshold c)")
      case True
      with Some hit_bumped [OF Some, of s] show ?thesis by simp
    next
      case False
      with Some Cons show ?thesis by auto
    qed
  qed
qed

lemma Get_cache: "bumped c (fst (snd (Get sha lower c s now order q p)))"
proof (cases "cache c (hashQuery sha lower q p)")
  case None
  then show ?thesis by (simp add: Get_def scan_cache)
next
  case (Some e)
  show ?thesis
  proof (cases "now - CreatedAt e < ttl c")
    case True
    with Some hit_bumped [OF Some, of s] show ?thesis by (simp add: Get_def)
  next
    case False
    with Some show ?thesis by (simp add: Get_def scan_cache)
  qed
qed

lemma cacheInv_hitcount:
  assumes "cacheInv sha c" "cache c h = Some e"
  shows "cacheInv sha (c\<lparr> cache := (cache c)(h \<mapsto> e\<lparr> HitCount := HitCount e + 1 \<rparr>) \<rparr>)"
proof -
  have "dom ((cache c)(h \<mapsto> e\<lparr> HitCount := HitCount e + 1 \<rparr>)) = dom (cache c)"
    using assms(2) by auto
  then show ?thesis
    using assms unfolding cacheInv_def keysHashed_def lenCache_def hashedOf_def
    by (auto split: if_splits)
qed

lemma evictCount_default: "evictCountOf 10000 = 1000"
  by (simp add: evictCountOf_def signed_divide_int_def)

lemma cacheInv_Set:
  assumes inv: "cacheInv sha c" and vo: "validOrder c order"
  shows "cacheInv sha (Set sha lower c now order q p r)"
proof -
  define c1 where "c1 = (if lenCache c \<ge> maxEntries c then evictOldest c order else c)"
  have fin: "finite (dom (cache c))" and mx: "maxEntries c = 10000"
    and le: "lenCache c \<le> 10000" and kh: "keysHashed sha c"
    using inv by (simp_all add: cacheInv_def)
  have keep: "\<And>h. cache c1 h = None \<or> cache c1 h = cache c h"
    by (simp add: c1_def evictOldest_cache)
  have sub: "dom (cache c1) \<subseteq> dom (cache c)"
    using keep by (rule dom_shrink)
  then have fin1: "finite (dom (cache c1))"
    using fin by (rule finite_subset)
  have card1: "card (dom (cache c1)) < 10000"
  proof (cases "lenCache c \<ge> maxEntries c")
    case True
    then have full: "card (dom (cache c)) = 10000"
      using le mx by (simp add: lenCache_def)
    let ?E = "dom (cache c) - dom (cache (evictOldest c order))"
    have cE: "card ?E = 1000"
      using evictOldest_props(1) [OF vo] by (simp add: mx evictCount_default full)
    have "dom (cache (evictOldest c order)) \<subseteq> dom (cache c)"
      using sub True by (simp add: c1_def)
    then have "card ?E = card (dom (cache c)) - card (dom (cache (evictOldest c order)))"
      using fin by (simp add: card_Diff_subset finite_subset)
    moreover have "card (dom (cache (evictOldest c order))) \<le> card (dom (cache c))"
      using \<open>dom (cache (evictOldest c order)) \<subseteq> dom (cache c)\<close> fin by (simp add: card_mono)
    ultimately have "card (dom (cache (evictOldest c order))) = 9000"
      using cE full by simp
    with True show ?thesis by (simp add: c1_def)
  next
    case False
    then show ?thesis using mx by (simp add: lenCache_def c1_def)
  qed
  have mx1: "maxEntries c1 = 10000"
    using mx by (simp add: evictOldest_fields c1_def)
  have kh1: "keysHashed sha c1"
    using kh keep unfolding keysHashed_def by (metis option.distinct(1))
  define h where "h = hashQuery sha lower q p"
  define e where "e = \<lparr> Query = normalizeQuery lower q, QueryHash = h, PortfolioID = p, Response = r,
             Keywords = extractKeywords lower q, CreatedAt = now, HitCount = 0 \<rparr>"
  have eq: "Set sha lower c now order q p r = c1\<lparr> cache := (cache c1)(h \<mapsto> e) \<rparr>"
    by (simp add: Set_def Let_def c1_def h_def e_def)
  have "card (dom ((cache c1)(h \<mapsto> e))) \<le> card (dom (cache c1)) + 1"
    using fin1 by (simp add: card_insert_if)
  with card1 have c2: "card (dom ((cache c1)(h \<mapsto> e))) \<le> 10000" by simp
  have he: "h = sha (hashedOf e)"
    by (simp add: h_def e_def hashQuery_def hashedOf_def)
  have nb: "CHR ''|'' \<notin> set (Query e)"
    by (simp add: e_def normalizeQuery_no_bar)
  have k2: "keysHashed sha (c1\<lparr> cache := (cache c1)(h \<mapsto> e) \<rparr>)"
    using kh1 he nb unfolding keysHashed_def by auto
  show ?thesis
    unfolding eq cacheInv_def lenCache_def using fin1 mx1 c2 k2 by simp
qed

lemma cacheInv_filter:
  assumes inv: "cacheInv sha c"
    and f: "\<And>h. cache c' h = None \<or> cache c' h = cache c h"
    and mx: "maxEntries c' = maxEntries c"
  shows "cacheInv sha c'"
proof -
  have sub: "dom (cache c') \<subseteq> dom (cache c)"
    using f by (rule dom_shrink)
  have fin: "finite (dom (cache c))" using inv by (simp add: cacheInv_def)
  have fin': "finite (dom (cache c'))" using sub fin by (rule finite_subset)
  have "card (dom (cache c')) \<le> card (dom (cache c))"
    using sub fin by (rule card_mono [rotated])
  moreover have "keysHashed sha c'"
    using inv f unfolding cacheInv_def keysHashed_def by (metis option.distinct(1))
  ultimately show ?thesis
    using inv fin' mx unfolding cacheInv_def lenCache_def by simp
qed

lemma reachable_inv: "reachable sha lower c \<Longrightarrow> cacheInv sha c"
proof (induction rule: reachable.induct)
  case (new ttl0 threshold0)
  show ?case by (simp add: cacheInv_def NewQueryCache_def lenCache_def keysHashed_def)
next
  case (set c order now query portfolioID response)
  then show ?case by (simp add: cacheInv_Set)
next
  case (get c order s now query portfolioID)
  with Get_cache [of c sha lower s now order query portfolioID] show ?case
    unfolding bumped_def by (auto simp: cacheInv_hitcount)
next
  case (invalidate c order portfolioID)
  show ?case
  proof (rule cacheInv_filter [OF invalidate.IH])
    show "cache (Invalidate c order portfolioID) h = None
        \<or> cache (Invalidate c order portfolioID) h = cache c h" for h
      by (rule Invalidate_keep)
    show "maxEntries (Invalidate c order portfolioID) = maxEntries c"
      by (simp add: Invalidate_def)
  qed
next
  case (cleanup c order now)
  show ?case
  proof (rule cacheInv_filter [OF cleanup.IH])
    show "cache (cleanup c order now) h = None \<or> cache (cleanup c order now) h = cache c h" for h
      by (rule cleanup_keep)
    show "maxEntries (cleanup c order now) = maxEntries c"
      by (simp add: cleanup_def)
  qed
qed

text \<open>
  C5. In every cache state reachable from \<open>NewQueryCache\<close> by \<open>Set\<close>, \<open>Get\<close>,
  \<open>Invalidate\<close> and \<open>cleanup\<close>, the number of entries is at most \<open>maxEntries\<close>, which is
  10,000; when such a cache is at capacity, \<open>evictOldest\<close> removes 1,000 entries, one
  tenth of them.  For any cache at capacity, \<open>Set\<close> is \<open>evictOldest\<close> followed by the
  insertion of the new entry; \<open>evictOldest\<close> removes \<open>maxEntries / 10\<close> entries (at least
  one, and no more than there are), leaves every other entry as it was, and every entry
  it removes was created no later than every entry it keeps.
\<close>

theorem cache_bounded_evicts_oldest:
  "(reachable sha lower c \<longrightarrow> lenCache c \<le> maxEntries c \<and> maxEntries c = 10000)
   \<and> (reachable sha lower c \<and> validOrder c order \<and> maxEntries c \<le> lenCache c \<longrightarrow>
        card (dom (cache c) - dom (cache (evictOldest c order))) = 1000
        \<and> 10 * card (dom (cache c) - dom (cache (evictOldest c order))) = card (dom (cache c)))
   \<and> (validOrder c' order' \<and> maxEntries c' \<le> lenCache c' \<longrightarrow>
        Set sha lower c' now order' q p r
          = (evictOldest c' order')\<lparr> cache := (cache (evictOldest c' order'))(hashQuery sha lower q p \<mapsto>
               \<lparr> Query = normalizeQuery lower q, QueryHash = hashQuery sha lower q p, PortfolioID = p,
                 Response = r, Keywords = extractKeywords lower q, CreatedAt = now, HitCount = 0 \<rparr>) \<rparr>
        \<and> card (dom (cache c') - dom (cache (evictOldest c' order')))
            = min (nat (if maxEntries c' sdiv 10 < 1 then 1 else maxEntries c' sdiv 10))
                  (card (dom (cache c')))
        \<and> (\<forall>h e. cache (evictOldest c' order') h = Some e \<longrightarrow> cache c' h = Some e)
        \<and> (\<forall>h e h' e'. cache c' h = Some e \<and> cache (evictOldest c' order') h = None
              \<and> cache (evictOldest c' order') h' = Some e' \<longrightarrow> CreatedAt e \<le> CreatedAt e'))"
proof (intro conjI impI)
  assume "reachable sha lower c"
  then have "cacheInv sha c" by (rule reachable_inv)
  then show "lenCache c \<le> maxEntries c" "maxEntries c = 10000"
    by (simp_all add: cacheInv_def)
next
  assume a: "reachable sha lower c \<and> validOrder c order \<and> maxEntries c \<le> lenCache c"
  then have inv: "cacheInv sha c" by (blast intro: reachable_inv)
  then have full: "card (dom (cache c)) = 10000" and mx: "maxEntries c = 10000"
    using a by (simp_all add: cacheInv_def lenCache_def)
  from a have vo: "validOrder c order" by simp
  show n: "card (dom (cache c) - dom (cache (evictOldest c order))) = 1000"
    using evictOldest_props(1) [OF vo] by (simp add: mx evictCount_default full)
  show "10 * card (dom (cache c) - dom (cache (evictOldest c order))) = card (dom (cache c))"
    by (simp add: n full)
next
  assume a: "validOrder c' order' \<and> maxEntries c' \<le> lenCache c'"
  then have vo: "validOrder c' order'" by simp
  note p = evictOldest_props [OF vo]
  from a show "Set sha lower c' now order' q p r
          = (evictOldest c' order')\<lparr> cache := (cache (evictOldest c' order'))(hashQuery sha lower q p \<mapsto>
               \<lparr> Query = normalizeQuery lower q, QueryHash = hashQuery sha lower q p, PortfolioID = p,
                 Response = r, Keywords = extractKeywords lower q, CreatedAt = now, HitCount = 0 \<rparr>) \<rparr>"
    by (simp add: Set_def Let_def)
  show "card (dom (cache c') - dom (cache (evictOldest c' order')))
            = min (nat (if maxEntries c' sdiv 10 < 1 then 1 else maxEntries c' sdiv 10))
                  (card (dom (cache c')))"
    using p(1) by (simp add: evictCountOf_def Let_def)
  show "\<forall>h e. cache (evictOldest c' order') h = Some e \<longrightarrow> cache c' h = Some e"
    using p(2) by (metis option.distinct(1))
  show "\<forall>h e h' e'. cache c' h = Some e \<and> cache (evictOldest c' order') h = None
              \<and> cache (evictOldest c' order') h' = Some e' \<longrightarrow> CreatedAt e \<le> CreatedAt e'"
  proof (intro allI impI, elim conjE)
    fix h e h' e'
    assume 1: "cache c' h = Some e" and 2: "cache (evictOldest c' order') h = None"
      and 3: "cache (evictOldest c' order') h' = Some e'"
    from 1 2 have "h \<in> dom (cache c') - dom (cache (evictOldest c' order'))" by auto
    with p(3) 1 3 show "CreatedAt e \<le> CreatedAt e'" by blast
  qed
qed

lemma small_sorted:
  "sortOuter 0 (rangeEntries (cache smallCache) [''a|p'', ''b|p'', ''c|p''])
     = [\<lparr> hash = ''b|p'', age = 3 \<rparr>, \<lparr> hash = ''a|p'', age = 5 \<rparr>, \<lparr> hash = ''c|p'', age = 9 \<rparr>]"
  by (simp add: smallCache_def entryAt_def rangeEntries_def List.map_filter_simps
      sortOuter.simps sortInner.simps)

theorem cache_bounded_evicts_oldest_witness:
  "reachable (\<lambda>x. x) latinLower (Set (\<lambda>x. x) latinLower (NewQueryCache 0 (Finite 0)) 7 [] ''What is my risk exposure?'' ''p-1'' None)
   \<and> lenCache (Set (\<lambda>x. x) latinLower (NewQueryCache 0 (Finite 0)) 7 [] ''What is my risk exposure?'' ''p-1'' None) = 1
   \<and> validOrder smallCache [''a|p'', ''b|p'', ''c|p'']
   \<and> maxEntries smallCache \<le> lenCache smallCache
   \<and> card (dom (cache smallCache) - dom (cache (evictOldest smallCache [''a|p'', ''b|p'', ''c|p'']))) = 1
   \<and> cache (evictOldest smallCache [''a|p'', ''b|p'', ''c|p'']) ''b|p'' = None
   \<and> cache (evictOldest smallCache [''a|p'', ''b|p'', ''c|p'']) ''a|p'' = Some (entryAt ''a'' 5)
   \<and> cache (evictOldest smallCache [''a|p'', ''b|p'', ''c|p'']) ''c|p'' = Some (entryAt ''c'' 9)"
proof -
  let ?c = "Set (\<lambda>x. x) latinLower (NewQueryCache 0 (Finite 0)) 7 [] ''What is my risk exposure?'' ''p-1'' None"
  let ?o = "[''a|p'', ''b|p'', ''c|p'']"
  have vo0: "validOrder (NewQueryCache 0 (Finite 0)) []"
    by (simp add: validOrder_def NewQueryCache_def)
  have r: "reachable (\<lambda>x. x) latinLower ?c"
    by (rule reachable.set [OF reachable.new vo0])
  have l: "lenCache ?c = 1"
    by (simp add: Set_def lenCache_def NewQueryCache_def Let_def)
  have vo: "validOrder smallCache ?o"
    by (auto simp: validOrder_def smallCache_def)
  have full: "maxEntries smallCache \<le> lenCache smallCache"
    by (simp add: smallCache_def lenCache_def)
  have n: "nat (if maxEntries smallCache sdiv 10 < 1 then 1 else maxEntries smallCache sdiv 10) = 1"
    by (simp add: smallCache_def signed_divide_int_def)
  have cd: "card (dom (cache smallCache)) = 3"
    by (simp add: smallCache_def)
  note t = cache_bounded_evicts_oldest [of "\<lambda>x. x" latinLower ?c ?o smallCache ?o 0 "[]" "[]" None]
  from t r have "lenCache ?c \<le> maxEntries ?c" by blast
  from t vo full have "card (dom (cache smallCache) - dom (cache (evictOldest smallCache ?o)))
            = min (nat (if maxEntries smallCache sdiv 10 < 1 then 1 else maxEntries smallCache sdiv 10))
                  (card (dom (cache smallCache)))"
    by blast
  then have one: "card (dom (cache smallCache) - dom (cache (evictOldest smallCache ?o))) = 1"
    unfolding n cd by simp
  have ev: "cache (evictOldest smallCache ?o) ''b|p'' = None"
    "cache (evictOldest smallCache ?o) ''a|p'' = Some (entryAt ''a'' 5)"
    "cache (evictOldest smallCache ?o) ''c|p'' = Some (entryAt ''c'' 9)"
    by (simp_all add: evictOldest_cache small_sorted evictCountOf_def signed_divide_int_def)
       (simp_all add: smallCache_def)
  from r l vo full one ev show ?thesis by simp
qed

section \<open>Properties of the cache: invalidation\<close>

lemma split_at_bar:
  "a @ CHR ''|'' # b = c @ CHR ''|'' # d \<Longrightarrow> CHR ''|'' \<notin> set a \<Longrightarrow> CHR ''|'' \<notin> set c
   \<Longrightarrow> a = c \<and> b = d"
proof (induction a arbitrary: c)
  case Nil
  then show ?case by (cases c) auto
next
  case (Cons x a)
  then show ?case by (cases c) auto
qed

text \<open>
  When the digest does not make the looked-up string collide with a string hashed for
  the cache, the entry found under the key of \<open>(q, p)\<close> is an entry of portfolio \<open>p\<close>.
\<close>

lemma exact_entry_portfolio:
  assumes kh: "keysHashed sha c"
    and nc: "inj_on sha (insert (normalizeQuery lower q @ ''|'' @ p) (hashedStrings c))"
    and ce: "cache c (hashQuery sha lower q p) = Some e"
  shows "PortfolioID e = p"
proof -
  from kh ce have k: "hashQuery sha lower q p = sha (hashedOf e)"
    and nb: "CHR ''|'' \<notin> set (Query e)"
    unfolding keysHashed_def by blast+
  from ce have "hashedOf e \<in> hashedStrings c"
    unfolding hashedStrings_def ran_def by blast
  with nc k have "normalizeQuery lower q @ ''|'' @ p = hashedOf e"
    unfolding hashQuery_def by (meson inj_onD insertI1 insertI2)
  then have "normalizeQuery lower q @ CHR ''|'' # p = Query e @ CHR ''|'' # PortfolioID e"
    by (simp add: hashedOf_def)
  from split_at_bar [OF this normalizeQuery_no_bar nb] show ?thesis by simp
qed

lemma Invalidate_apply:
  "cache (Invalidate c order p) h =
     (case cache c h of
        None \<Rightarrow> None
      | Some e \<Rightarrow> if PortfolioID e = p \<and> h \<in> set order then None else Some e)"
  by (simp add: Invalidate_def invalidateLoop_apply)

lemma Invalidate_cache:
  "dom (cache c) \<subseteq> set order \<Longrightarrow> cache (Invalidate c order p) h =
     (case cache c h of None \<Rightarrow> None | Some e \<Rightarrow> if PortfolioID e = p then None else Some e)"
  by (auto simp: Invalidate_apply split: option.splits)

lemma Invalidate_fields:
  "ttl (Invalidate c order p) = ttl c" "threshold (Invalidate c order p) = threshold c"
  "maxEntries (Invalidate c order p) = maxEntries c"
  by (simp_all add: Invalidate_def)

lemma scan_none:
  "(\<And>h e. cache c h = Some e \<Longrightarrow> PortfolioID e \<noteq> p)
   \<Longrightarrow> scan c s now nq qk p order = (None, c, s)"
  by (induction order) (auto split: option.splits)

lemma Get_after_Invalidate_absent:
  assumes kh: "keysHashed sha c" and cover: "dom (cache c) \<subseteq> set order0"
    and nc: "inj_on sha (insert (normalizeQuery lower q @ ''|'' @ p) (hashedStrings c))"
  shows "Get sha lower (Invalidate c order0 p) s now order q p = (None, Invalidate c order0 p, s)"
proof -
  have other: "\<And>h e. cache (Invalidate c order0 p) h = Some e \<Longrightarrow> PortfolioID e \<noteq> p"
    by (auto simp: Invalidate_cache [OF cover] split: option.splits if_splits)
  have "cache (Invalidate c order0 p) (hashQuery sha lower q p) = None"
  proof (cases "cache (Invalidate c order0 p) (hashQuery sha lower q p)")
    case None
    then show ?thesis .
  next
    case (Some e)
    then have ce: "cache c (hashQuery sha lower q p) = Some e"
      by (auto simp: Invalidate_cache [OF cover] split: option.splits if_splits)
    from exact_entry_portfolio [OF kh nc ce] other [OF Some] show ?thesis by simp
  qed
  then show ?thesis
    by (simp add: Get_def scan_none [OF other])
qed

lemma Invalidate_bump:
  assumes "PortfolioID e \<noteq> p"
  shows "(Invalidate c order p)\<lparr> cache := (cache (Invalidate c order p))(h \<mapsto> e\<lparr> HitCount := n \<rparr>) \<rparr>
     = Invalidate (c\<lparr> cache := (cache c)(h \<mapsto> e\<lparr> HitCount := n \<rparr>) \<rparr>) order p"
proof -
  have "(invalidateLoop p order (cache c))(h \<mapsto> e\<lparr> HitCount := n \<rparr>)
      = invalidateLoop p order ((cache c)(h \<mapsto> e\<lparr> HitCount := n \<rparr>))"
    using assms by (auto simp: fun_eq_iff invalidateLoop_apply split: option.splits)
  then show ?thesis
    by (simp add: Invalidate_def)
qed

lemma hit_Invalidate:
  assumes "PortfolioID e \<noteq> p"
  shows "hit (Invalidate c order p) s h e
     = (case hit c s h e of (r, c', s') \<Rightarrow> (r, Invalidate c' order p, s'))"
  using Invalidate_bump [OF assms, of c order h "HitCount e + 1"]
  by (simp add: hit_def Let_def split: prod.splits)

lemma scan_Invalidate:
  assumes "p' \<noteq> p"
  shows "scan (Invalidate c order0 p) s now nq qk p' order
     = (case scan c s now nq qk p' order of (r, c', s') \<Rightarrow> (r, Invalidate c' order0 p, s'))"
proof (induction order)
  case Nil
  show ?case by simp
next
  case (Cons h hs)
  show ?case
  proof (cases "cache c h")
    case None
    with Cons show ?thesis by (simp add: Invalidate_apply)
  next
    case (Some e)
    show ?thesis
    proof (cases "PortfolioID e = p'")
      case True
      with assms have ne: "PortfolioID e \<noteq> p" by simp
      with Some True Cons show ?thesis
        by (simp add: Invalidate_apply Invalidate_fields hit_Invalidate [OF ne])
    next
      case False
      with Some Cons show ?thesis
        by (simp add: Invalidate_apply)
    qed
  qed
qed

lemma Get_Invalidate_other:
  assumes kh: "keysHashed sha c" and ne: "p' \<noteq> p"
    and nc: "inj_on sha (insert (normalizeQuery lower q @ ''|'' @ p') (hashedStrings c))"
  shows "Get sha lower (Invalidate c order0 p) s now order q p'
     = (case Get sha lower c s now order q p' of (r, c', s') \<Rightarrow> (r, Invalidate c' order0 p, s'))"
proof (cases "cache c (hashQuery sha lower q p')")
  case None
  then show ?thesis
    by (simp add: Get_def Invalidate_apply scan_Invalidate [OF ne])
next
  case (Some e)
  from exact_entry_portfolio [OF kh nc Some] ne have pe: "PortfolioID e \<noteq> p" by simp
  with Some show ?thesis
    by (simp add: Get_def Invalidate_apply Invalidate_fields hit_Invalidate [OF pe]
        scan_Invalidate [OF ne])
qed

lemma hit_fst: "fst (hit c s h e) = fst (cloneResponse s (Response e))"
  by (simp add: hit_def Let_def split: prod.splits)

text \<open>
  C7. For every reachable cache state, every order in which the loop of \<open>Invalidate\<close>
  ranges over the map, and every query \<open>q\<close> whose hashed string (under \<open>p\<close> and under
  \<open>p'\<close>) the digest does not make collide with a string hashed for the cache:
  \<open>Invalidate p\<close> deletes exactly the entries whose portfolio id is \<open>p\<close> and changes no
  other entry; afterwards \<open>Get\<close> finds nothing for \<open>q\<close> under \<open>p\<close>; and \<open>Get\<close> under any
  other portfolio id \<open>p'\<close> returns what it would have returned without the invalidation
  (the same clone, the same store, the same hit count), so that an entry of another
  portfolio that has not expired is still found under its query.
\<close>

theorem Invalidate_removes_all_and_only:
  assumes r: "reachable sha lower c" and vo: "validOrder c order0"
    and nc: "inj_on sha (hashedStrings c \<union> {normalizeQuery lower q @ ''|'' @ p,
                                             normalizeQuery lower q @ ''|'' @ p'})"
  shows "(\<forall>h. cache (Invalidate c order0 p) h =
            (case cache c h of None \<Rightarrow> None
             | Some e \<Rightarrow> if PortfolioID e = p then None else Some e))
     \<and> Get sha lower (Invalidate c order0 p) s now order q p = (None, Invalidate c order0 p, s)
     \<and> (p' \<noteq> p \<longrightarrow>
          Get sha lower (Invalidate c order0 p) s now order q p'
            = (case Get sha lower c s now order q p' of
                 (r, c', s') \<Rightarrow> (r, Invalidate c' order0 p, s')))
     \<and> (p' \<noteq> p \<and> cache c (hashQuery sha lower q p') = Some e \<and> now - CreatedAt e < ttl c \<longrightarrow>
          PortfolioID e = p'
          \<and> cache (Invalidate c order0 p) (hashQuery sha lower q p') = Some e
          \<and> fst (Get sha lower (Invalidate c order0 p) s now order q p')
              = fst (cloneResponse s (Response e)))"
proof -
  from r have kh: "keysHashed sha c"
    using reachable_inv by (auto simp: cacheInv_def)
  from vo have cover: "dom (cache c) \<subseteq> set order0"
    by (simp add: validOrder_def)
  have nc1: "inj_on sha (insert (normalizeQuery lower q @ ''|'' @ p) (hashedStrings c))"
    by (rule inj_on_subset [OF nc]) auto
  have nc2: "inj_on sha (insert (normalizeQuery lower q @ ''|'' @ p') (hashedStrings c))"
    by (rule inj_on_subset [OF nc]) auto
  have 1: "\<forall>h. cache (Invalidate c order0 p) h =
            (case cache c h of None \<Rightarrow> None
             | Some e \<Rightarrow> if PortfolioID e = p then None else Some e)"
    by (simp add: Invalidate_cache [OF cover])
  have 2: "Get sha lower (Invalidate c order0 p) s now order q p = (None, Invalidate c order0 p, s)"
    by (rule Get_after_Invalidate_absent [OF kh cover nc1])
  have 3: "p' \<noteq> p \<longrightarrow>
          Get sha lower (Invalidate c order0 p) s now order q p'
            = (case Get sha lower c s now order q p' of
                 (r, c', s') \<Rightarrow> (r, Invalidate c' order0 p, s'))"
    using Get_Invalidate_other [OF kh _ nc2] by blast
  have 4: "p' \<noteq> p \<and> cache c (hashQuery sha lower q p') = Some e \<and> now - CreatedAt e < ttl c \<longrightarrow>
          PortfolioID e = p'
          \<and> cache (Invalidate c order0 p) (hashQuery sha lower q p') = Some e
          \<and> fst (Get sha lower (Invalidate c order0 p) s now order q p')
              = fst (cloneResponse s (Response e))"
  proof (intro impI, elim conjE)
    assume ne: "p' \<noteq> p" and ce: "cache c (hashQuery sha lower q p') = Some e"
      and fresh: "now - CreatedAt e < ttl c"
    from exact_entry_portfolio [OF kh nc2 ce] have pp: "PortfolioID e = p'" .
    with ne have pe: "PortfolioID e \<noteq> p" by simp
    with ce have ci: "cache (Invalidate c order0 p) (hashQuery sha lower q p') = Some e"
      by (simp add: Invalidate_apply)
    have "fst (Get sha lower (Invalidate c order0 p) s now order q p')
        = fst (cloneResponse s (Response e))"
      using ci fresh by (simp add: Get_def Invalidate_fields hit_fst)
    with ci pp show "PortfolioID e = p'
          \<and> cache (Invalidate c order0 p) (hashQuery sha lower q p') = Some e
          \<and> fst (Get sha lower (Invalidate c order0 p) s now order q p')
              = fst (cloneResponse s (Response e))"
      by simp
  qed
  from 1 2 3 4 show ?thesis by blast
qed

text \<open>
  A cache holding two entries of \<open>portfolio-1\<close> and one of \<open>portfolio-2\<close>, invalidated
  for \<open>portfolio-1\<close>.
\<close>

lemma hash_examples:
  "hashQuery (\<lambda>x. x) latinLower ''query 1'' ''portfolio-1'' = ''query 1|portfolio-1''"
  "hashQuery (\<lambda>x. x) latinLower ''query 2'' ''portfolio-1'' = ''query 2|portfolio-1''"
  "hashQuery (\<lambda>x. x) latinLower ''query 3'' ''portfolio-2'' = ''query 3|portfolio-2''"
  by code_simp+

lemma threeEntries_eq:
  "threeEntries =
     \<lparr> cache = [''query 1|portfolio-1'' \<mapsto> entryOf ''query 1'' ''portfolio-1'' 10,
                ''query 2|portfolio-1'' \<mapsto> entryOf ''query 2'' ''portfolio-1'' 20,
                ''query 3|portfolio-2'' \<mapsto> entryOf ''query 3'' ''portfolio-2'' 30],
       ttl = Hour, threshold = threshold (NewQueryCache Hour (round64 (92 / 100))),
       maxEntries = 10000 \<rparr>"
  by (simp add: threeEntries_def Set_def Let_def NewQueryCache_def lenCache_def hash_examples
      entryOf_def Hour_def Minute_def Second_def)

lemma threeEntries_reachable: "reachable (\<lambda>x. x) latinLower threeEntries"
  unfolding threeEntries_def
  by (intro reachable.set reachable.new)
     (auto simp: validOrder_def Set_def Let_def NewQueryCache_def lenCache_def hash_examples)

lemma threeKeys_valid: "validOrder threeEntries threeKeys"
  by (auto simp: validOrder_def threeEntries_eq threeKeys_def)

theorem Invalidate_removes_all_and_only_witness:
  "reachable (\<lambda>x. x) latinLower threeEntries \<and> validOrder threeEntries threeKeys
   \<and> inj_on (\<lambda>x. x) (hashedStrings threeEntries
        \<union> {normalizeQuery latinLower ''query 1'' @ ''|'' @ ''portfolio-1'',
            normalizeQuery latinLower ''query 1'' @ ''|'' @ ''portfolio-2''})
   \<and> fst (Get (\<lambda>x. x) latinLower threeEntries testStore 40 [] ''query 1'' ''portfolio-1'') = Some 3
   \<and> fst (Get (\<lambda>x. x) latinLower (Invalidate threeEntries threeKeys ''portfolio-1'') testStore 40 []
          ''query 1'' ''portfolio-1'') = None
   \<and> fst (Get (\<lambda>x. x) latinLower (Invalidate threeEntries threeKeys ''portfolio-1'') testStore 40 []
          ''query 3'' ''portfolio-2'') = Some 3
   \<and> cache (Invalidate threeEntries threeKeys ''portfolio-1'') ''query 3|portfolio-2''
        = cache threeEntries ''query 3|portfolio-2''
   \<and> cache (Invalidate threeEntries threeKeys ''portfolio-1'') ''query 2|portfolio-1'' = None"
proof -
  have inj1: "inj_on (\<lambda>x. x) (hashedStrings threeEntries
      \<union> {normalizeQuery latinLower ''query 1'' @ ''|'' @ ''portfolio-1'',
          normalizeQuery latinLower ''query 1'' @ ''|'' @ ''portfolio-2''})"
    by simp
  have inj3: "inj_on (\<lambda>x. x) (hashedStrings threeEntries
      \<union> {normalizeQuery latinLower ''query 3'' @ ''|'' @ ''portfolio-1'',
          normalizeQuery latinLower ''query 3'' @ ''|'' @ ''portfolio-2''})"
    by simp
  note t = Invalidate_removes_all_and_only [OF threeEntries_reachable threeKeys_valid inj1,
      where s = testStore and now = 40 and order = "[]"]
  have cl: "fst (cloneResponse testStore (Some 0)) = Some 3"
    by (simp add: cloneResponse_def testStore_def allocSrcs_def allocStrs_def allocResp_def
        split: prod.splits)
  have e1: "cache threeEntries (hashQuery (\<lambda>x. x) latinLower ''query 1'' ''portfolio-1'')
      = Some (entryOf ''query 1'' ''portfolio-1'' 10)"
    by (simp add: threeEntries_eq hash_examples)
  have before: "fst (Get (\<lambda>x. x) latinLower threeEntries testStore 40 [] ''query 1'' ''portfolio-1'')
      = Some 3"
  proof -
    have "40 - CreatedAt (entryOf ''query 1'' ''portfolio-1'' 10) < ttl threeEntries"
      by (simp add: threeEntries_eq entryOf_def Hour_def Minute_def Second_def)
    moreover have "Response (entryOf ''query 1'' ''portfolio-1'' 10) = Some 0"
      by (simp add: entryOf_def)
    ultimately show ?thesis
      by (simp add: Get_def e1 hit_fst cl)
  qed
  from t have gone: "fst (Get (\<lambda>x. x) latinLower (Invalidate threeEntries threeKeys ''portfolio-1'')
      testStore 40 [] ''query 1'' ''portfolio-1'') = None"
    by simp
  let ?e3 = "entryOf ''query 3'' ''portfolio-2'' 30"
  have e3: "cache threeEntries (hashQuery (\<lambda>x. x) latinLower ''query 3'' ''portfolio-2'') = Some ?e3"
    by (simp add: threeEntries_eq hash_examples)
  have ttl3: "40 - CreatedAt ?e3 < ttl threeEntries"
    by (simp add: threeEntries_eq entryOf_def Hour_def Minute_def Second_def)
  have ne: "''portfolio-2'' \<noteq> ''portfolio-1''" by simp
  from Invalidate_removes_all_and_only [OF threeEntries_reachable threeKeys_valid inj3,
      where s = testStore and now = 40 and order = "[]" and e = ?e3]
  have "''portfolio-2'' \<noteq> ''portfolio-1''
          \<and> cache threeEntries (hashQuery (\<lambda>x. x) latinLower ''query 3'' ''portfolio-2'') = Some ?e3
          \<and> 40 - CreatedAt ?e3 < ttl threeEntries \<longrightarrow>
        PortfolioID ?e3 = ''portfolio-2''
        \<and> cache (Invalidate threeEntries threeKeys ''portfolio-1'')
            (hashQuery (\<lambda>x. x) latinLower ''query 3'' ''portfolio-2'') = Some ?e3
        \<and> fst (Get (\<lambda>x. x) latinLower (Invalidate threeEntries threeKeys ''portfolio-1'') testStore 40 []
              ''query 3'' ''portfolio-2'') = fst (cloneResponse testStore (Response ?e3))"
    by (elim conjE)
  with ne e3 ttl3
  have kept: "cache (Invalidate threeEntries threeKeys ''portfolio-1'')
          (hashQuery (\<lambda>x. x) latinLower ''query 3'' ''portfolio-2'')
        = cache threeEntries (hashQuery (\<lambda>x. x) latinLower ''query 3'' ''portfolio-2'')"
    and still: "fst (Get (\<lambda>x. x) latinLower (Invalidate threeEntries threeKeys ''portfolio-1'')
        testStore 40 [] ''query 3'' ''portfolio-2'') = fst (cloneResponse testStore (Response ?e3))"
    by simp_all
  have "Response ?e3 = Some 0" by (simp add: entryOf_def)
  with still cl have still': "fst (Get (\<lambda>x. x) latinLower
        (Invalidate threeEntries threeKeys ''portfolio-1'') testStore 40 []
        ''query 3'' ''portfolio-2'') = Some 3"
    by simp
  have e2: "cache threeEntries ''query 2|portfolio-1'' = Some (entryOf ''query 2'' ''portfolio-1'' 20)"
    by (simp add: threeEntries_eq)
  from t have "cache (Invalidate threeEntries threeKeys ''portfolio-1'') ''query 2|portfolio-1'' =
            (case cache threeEntries ''query 2|portfolio-1'' of None \<Rightarrow> None
             | Some e \<Rightarrow> if PortfolioID e = ''portfolio-1'' then None else Some e)"
    by blast
  then have del: "cache (Invalidate threeEntries threeKeys ''portfolio-1'') ''query 2|portfolio-1'' = None"
    by (simp add: e2 entryOf_def)
  note kept' = kept [unfolded hash_examples]
  from threeEntries_reachable threeKeys_valid inj1 before gone still' kept' del show ?thesis
    by blast
qed

section \<open>Properties of the cache: round trip and clones\<close>

lemma srcElems_length: "sliceIn (srcArrs s) sl \<Longrightarrow> length (srcElems s sl) = sliceLen sl"
  by (auto simp: sliceIn_def srcElems_def sliceLen_def split: slice.splits option.splits)

lemma strElems_length: "sliceIn (strArrs s) sl \<Longrightarrow> length (strElems s sl) = sliceLen sl"
  by (auto simp: sliceIn_def strElems_def sliceLen_def split: slice.splits option.splits)

lemma copyElems_same: "length src = n \<Longrightarrow> copyElems (replicate n z) src = src"
  by (simp add: copyElems_def)

lemma cloneResponse_eq:
  assumes live: "resps s r = Some ro"
    and src: "sliceIn (srcArrs s) (Sources ro)" and str: "sliceIn (strArrs s) (Disclaimers ro)"
  shows "cloneResponse s (Some r) =
    (Some (nxt s + 2),
     s\<lparr> srcArrs := (srcArrs s)(nxt s \<mapsto> srcElems s (Sources ro)),
        strArrs := (strArrs s)(nxt s + 1 \<mapsto> strElems s (Disclaimers ro)),
        resps := (resps s)(nxt s + 2 \<mapsto>
           ro\<lparr> Sources := Slice (nxt s) 0 (sliceLen (Sources ro)),
               Disclaimers := Slice (nxt s + 1) 0 (sliceLen (Disclaimers ro)) \<rparr>),
        nxt := nxt s + 3 \<rparr>)"
proof -
  have a: "copyElems (replicate (sliceLen (Sources ro)) zeroSource) (srcElems s (Sources ro))
      = srcElems s (Sources ro)"
    by (rule copyElems_same) (rule srcElems_length [OF src])
  have b: "copyElems (replicate (sliceLen (Disclaimers ro)) []) (strElems s (Disclaimers ro))
      = strElems s (Disclaimers ro)"
    by (rule copyElems_same) (rule strElems_length [OF str])
  have c: "strElems (s\<lparr>srcArrs := m, nxt := k\<rparr>) sl = strElems s sl" for m k sl
    by (simp add: strElems_def split: slice.splits)
  show ?thesis
    by (simp add: cloneResponse_def live allocSrcs_def allocStrs_def allocResp_def a b c
        srcElems_length [OF src] strElems_length [OF str])
qed


lemma respContent_frame:
  assumes live: "resps s b = Some ro"
    and src: "sliceIn (srcArrs s) (Sources ro)" and str: "sliceIn (strArrs s) (Disclaimers ro)"
    and same: "resps s' b = resps s b"
    and arrs: "\<forall>a \<in> sliceArr (Sources ro). srcArrs s' a = srcArrs s a"
              "\<forall>a \<in> sliceArr (Disclaimers ro). strArrs s' a = strArrs s a"
  shows "respContent s' b = respContent s b"
  using assms
  by (auto simp: respContent_def srcElems_def strElems_def sliceArr_def split: slice.splits)

lemma wf_live:
  assumes "wfStore s" "resps s b = Some ro"
  shows "b < nxt s" "sliceIn (srcArrs s) (Sources ro)" "sliceIn (strArrs s) (Disclaimers ro)"
    "\<forall>a \<in> sliceArr (Sources ro). a < nxt s" "\<forall>a \<in> sliceArr (Disclaimers ro). a < nxt s"
proof -
  from assms show "b < nxt s"
    unfolding wfStore_def by (metis not_le_imp_less option.distinct(1))
  from assms show src: "sliceIn (srcArrs s) (Sources ro)" and str: "sliceIn (strArrs s) (Disclaimers ro)"
    unfolding wfStore_def by blast+
  have free: "\<And>a. nxt s \<le> a \<Longrightarrow> srcArrs s a = None \<and> strArrs s a = None"
    using assms(1) unfolding wfStore_def by blast
  show "\<forall>a \<in> sliceArr (Sources ro). a < nxt s"
  proof
    fix a assume "a \<in> sliceArr (Sources ro)"
    then obtain i n where "Sources ro = Slice a i n"
      by (auto simp: sliceArr_def split: slice.splits)
    with src have "srcArrs s a \<noteq> None"
      by (auto simp: sliceIn_def split: option.splits)
    with free [of a] show "a < nxt s" by (meson not_le_imp_less)
  qed
  show "\<forall>a \<in> sliceArr (Disclaimers ro). a < nxt s"
  proof
    fix a assume "a \<in> sliceArr (Disclaimers ro)"
    then obtain i n where "Disclaimers ro = Slice a i n"
      by (auto simp: sliceArr_def split: slice.splits)
    with str have "strArrs s a \<noteq> None"
      by (auto simp: sliceIn_def split: option.splits)
    with free [of a] show "a < nxt s" by (meson not_le_imp_less)
  qed
qed

text \<open>What a clone of a live response looks like.\<close>

lemma clone_of_live:
  assumes live: "resps s r = Some ro"
    and src: "sliceIn (srcArrs s) (Sources ro)" and str: "sliceIn (strArrs s) (Disclaimers ro)"
    and below: "r < nxt s"
      "\<forall>a \<in> sliceArr (Sources ro). a < nxt s" "\<forall>a \<in> sliceArr (Disclaimers ro). a < nxt s"
  shows "fst (cloneResponse s (Some r)) = Some (nxt s + 2)"
    and "respContent (snd (cloneResponse s (Some r))) (nxt s + 2) = respContent s r"
    and "respContent (snd (cloneResponse s (Some r))) r = respContent s r"
    and "footprint (snd (cloneResponse s (Some r))) (nxt s + 2) = {nxt s, nxt s + 1, nxt s + 2}"
    and "nxt (snd (cloneResponse s (Some r))) = nxt s + 3"
    and "\<forall>b. b < nxt s \<longrightarrow> resps (snd (cloneResponse s (Some r))) b = resps s b
           \<and> srcArrs (snd (cloneResponse s (Some r))) b = srcArrs s b
           \<and> strArrs (snd (cloneResponse s (Some r))) b = strArrs s b"
proof -
  note eq = cloneResponse_eq [OF live src str]
  show "fst (cloneResponse s (Some r)) = Some (nxt s + 2)"
    by (simp add: eq)
  show "respContent (snd (cloneResponse s (Some r))) (nxt s + 2) = respContent s r"
    using live srcElems_length [OF src] strElems_length [OF str]
    by (simp add: eq respContent_def srcElems_def [of _ "Slice _ _ _"]
        strElems_def [of _ "Slice _ _ _"])
  show "respContent (snd (cloneResponse s (Some r))) r = respContent s r"
  proof (rule respContent_frame [OF live src str])
    show "resps (snd (cloneResponse s (Some r))) r = resps s r"
      using below(1) by (simp add: eq)
    show "\<forall>a \<in> sliceArr (Sources ro). srcArrs (snd (cloneResponse s (Some r))) a = srcArrs s a"
      using below(2) by (auto simp: eq)
    show "\<forall>a \<in> sliceArr (Disclaimers ro). strArrs (snd (cloneResponse s (Some r))) a = strArrs s a"
      using below(3) by (auto simp: eq)
  qed
  show "footprint (snd (cloneResponse s (Some r))) (nxt s + 2) = {nxt s, nxt s + 1, nxt s + 2}"
    by (auto simp: eq footprint_def sliceArr_def)
  show "nxt (snd (cloneResponse s (Some r))) = nxt s + 3"
    by (simp add: eq)
  show "\<forall>b. b < nxt s \<longrightarrow> resps (snd (cloneResponse s (Some r))) b = resps s b
           \<and> srcArrs (snd (cloneResponse s (Some r))) b = srcArrs s b
           \<and> strArrs (snd (cloneResponse s (Some r))) b = strArrs s b"
    by (simp add: eq)
qed

lemma Set_entry:
  "cache (Set sha lower c now order q p r) (hashQuery sha lower q p)
     = Some \<lparr> Query = normalizeQuery lower q, QueryHash = hashQuery sha lower q p, PortfolioID = p,
              Response = r, Keywords = extractKeywords lower q, CreatedAt = now, HitCount = 0 \<rparr>"
  "ttl (Set sha lower c now order q p r) = ttl c"
  by (simp_all add: Set_def Let_def evictOldest_fields)

lemma Get_exact:
  assumes "cache c (hashQuery sha lower q p) = Some e" and "now - CreatedAt e < ttl c"
  shows "Get sha lower c s now order q p =
     (fst (cloneResponse s (Response e)),
      c\<lparr> cache := (cache c)(hashQuery sha lower q p \<mapsto> e\<lparr> HitCount := HitCount e + 1 \<rparr>) \<rparr>,
      snd (cloneResponse s (Response e)))"
  using assms by (simp add: Get_def hit_def Let_def split: prod.splits)

text \<open>
  C3. Let \<open>r\<close> be a live response in a well-formed store.  \<open>Set q p r\<close> followed by
  \<open>Get q p\<close> before the TTL has elapsed returns a response at a new address, different
  from \<open>r\<close>, whose content equals that of \<open>r\<close> and which shares no backing array with
  \<open>r\<close> (a nil \<open>Sources\<close> or \<open>Disclaimers\<close> of \<open>r\<close> comes back as an empty slice).  After any
  mutation of the returned clone, of its \<open>Sources\<close> array and of its \<open>Disclaimers\<close> array,
  a further \<open>Get q p\<close> within the TTL again returns a new response whose content is that
  of \<open>r\<close>.
\<close>

theorem Set_Get_roundtrip_clone:
  fixes sha :: "string \<Rightarrow> string" and lower :: "rune \<Rightarrow> rune" and q p :: string
    and order order' :: "string list"
  assumes wf: "wfStore s" and live: "resps s r = Some ro"
    and fresh: "now' - now < ttl c"
  defines "g \<equiv> Get sha lower (Set sha lower c now order q p (Some r)) s now' order' q p"
  shows "fst g = Some (nxt s + 2)
     \<and> nxt s + 2 \<noteq> r \<and> resps s (nxt s + 2) = None
     \<and> respContent (snd (snd g)) (nxt s + 2) = respContent s r
     \<and> footprint (snd (snd g)) (nxt s + 2) \<inter> footprint s r = {}
     \<and> (\<forall>s3 now'' order''.
           mutatesOnly (footprint (snd (snd g)) (nxt s + 2)) (snd (snd g)) s3
             \<and> now'' - now < ttl c \<longrightarrow>
           fst (Get sha lower (fst (snd g)) s3 now'' order'' q p) = Some (nxt s3 + 2)
           \<and> nxt s3 + 2 \<noteq> nxt s + 2
           \<and> respContent (snd (snd (Get sha lower (fst (snd g)) s3 now'' order'' q p))) (nxt s3 + 2)
               = respContent s r)"
proof -
  let ?h = "hashQuery sha lower q p"
  let ?c1 = "Set sha lower c now order q p (Some r)"
  let ?e0 = "\<lparr> Query = normalizeQuery lower q, QueryHash = ?h, PortfolioID = p,
              Response = Some r, Keywords = extractKeywords lower q, CreatedAt = now, HitCount = 0 \<rparr>"
  let ?c2 = "?c1\<lparr> cache := (cache ?c1)(?h \<mapsto> ?e0\<lparr> HitCount := HitCount ?e0 + 1 \<rparr>) \<rparr>"
  let ?s2 = "snd (cloneResponse s (Some r))"
  note w = wf_live [OF wf live]
  note cl = clone_of_live [OF live w(2) w(3) w(1) w(4) w(5)]
  have g: "g = (fst (cloneResponse s (Some r)), ?c2, ?s2)"
    unfolding g_def using Get_exact [of ?c1 sha lower q p ?e0 now' s order'] fresh
    by (simp add: Set_entry)
  have 1: "fst g = Some (nxt s + 2)" using cl(1) by (simp add: g)
  have 2: "nxt s + 2 \<noteq> r" using w(1) by simp
  have 3: "resps s (nxt s + 2) = None"
    using wf unfolding wfStore_def by simp
  have 4: "respContent (snd (snd g)) (nxt s + 2) = respContent s r"
    using cl(2) by (simp add: g)
  have fp: "footprint (snd (snd g)) (nxt s + 2) = {nxt s, nxt s + 1, nxt s + 2}"
    using cl(4) by (simp add: g)
  have old: "\<forall>b \<in> footprint s r. b < nxt s"
    using w(1) w(4) w(5) live by (auto simp: footprint_def)
  have 5: "footprint (snd (snd g)) (nxt s + 2) \<inter> footprint s r = {}"
    unfolding fp using old by auto
  have 6: "fst (Get sha lower (fst (snd g)) s3 now'' order'' q p) = Some (nxt s3 + 2)
           \<and> nxt s3 + 2 \<noteq> nxt s + 2
           \<and> respContent (snd (snd (Get sha lower (fst (snd g)) s3 now'' order'' q p))) (nxt s3 + 2)
               = respContent s r"
    if m: "mutatesOnly (footprint (snd (snd g)) (nxt s + 2)) (snd (snd g)) s3"
      and fresh2: "now'' - now < ttl c"
    for s3 now'' order''
  proof -
    from m have mono: "nxt s + 3 \<le> nxt s3"
      and same: "\<And>b. b < nxt s \<Longrightarrow> resps s3 b = resps ?s2 b \<and> srcArrs s3 b = srcArrs ?s2 b
          \<and> strArrs s3 b = strArrs ?s2 b"
      unfolding mutatesOnly_def fp using cl(5) by (simp_all add: g)
    have same': "\<And>b. b < nxt s \<Longrightarrow> resps s3 b = resps s b \<and> srcArrs s3 b = srcArrs s b
          \<and> strArrs s3 b = strArrs s b"
      using same cl(6) by simp
    have live3: "resps s3 r = Some ro"
      using same' [OF w(1)] live by simp
    have src3: "sliceIn (srcArrs s3) (Sources ro)"
      using w(2) w(4) same' by (auto simp: sliceIn_def sliceArr_def split: slice.splits)
    have str3: "sliceIn (strArrs s3) (Disclaimers ro)"
      using w(3) w(5) same' by (auto simp: sliceIn_def sliceArr_def split: slice.splits)
    have below3: "r < nxt s3" "\<forall>a \<in> sliceArr (Sources ro). a < nxt s3"
      "\<forall>a \<in> sliceArr (Disclaimers ro). a < nxt s3"
      using w(1) w(4) w(5) mono by auto
    note cl3 = clone_of_live [OF live3 src3 str3 below3]
    have c3: "respContent s3 r = respContent s r"
    proof (rule respContent_frame [OF live w(2) w(3)])
      show "resps s3 r = resps s r" using same' [OF w(1)] by simp
      show "\<forall>a \<in> sliceArr (Sources ro). srcArrs s3 a = srcArrs s a"
        using w(4) same' by simp
      show "\<forall>a \<in> sliceArr (Disclaimers ro). strArrs s3 a = strArrs s a"
        using w(5) same' by simp
    qed
    have e1: "cache ?c2 ?h = Some (?e0\<lparr> HitCount := HitCount ?e0 + 1 \<rparr>)" by simp
    have t2: "ttl ?c2 = ttl c" by (simp add: Set_entry)
    have g2: "Get sha lower (fst (snd g)) s3 now'' order'' q p =
       (fst (cloneResponse s3 (Some r)),
        ?c2\<lparr> cache := (cache ?c2)(?h \<mapsto> ?e0\<lparr> HitCount := HitCount ?e0 + 1 + 1 \<rparr>) \<rparr>,
        snd (cloneResponse s3 (Some r)))"
      unfolding g using Get_exact [OF e1, of now'' s3 order''] fresh2 t2 by simp
    show ?thesis
      using mono cl3(1) cl3(2) c3 by (simp add: g2)
  qed
  from 1 2 3 4 5 6 show ?thesis by blast
qed

lemma richStore_wf: "wfStore richStore"
  by (auto simp: wfStore_def richStore_def richResponse_def sliceIn_def split: if_splits)

theorem Set_Get_roundtrip_clone_witness:
  "wfStore richStore \<and> resps richStore 2 = Some richResponse
   \<and> (20::int) - 10 < ttl (NewQueryCache 0 (Finite 0))
   \<and> fst (Get (\<lambda>x. x) latinLower (Set (\<lambda>x. x) latinLower (NewQueryCache 0 (Finite 0)) 10 [] ''What is my risk exposure?'' ''p-1'' (Some 2))
         richStore 20 [] ''What is my risk exposure?'' ''p-1'') = Some 5
   \<and> respContent (snd (snd (Get (\<lambda>x. x) latinLower
           (Set (\<lambda>x. x) latinLower (NewQueryCache 0 (Finite 0)) 10 [] ''What is my risk exposure?'' ''p-1'' (Some 2))
           richStore 20 [] ''What is my risk exposure?'' ''p-1''))) 5 = respContent richStore 2
   \<and> Text (the (resps (tamper (snd (snd (Get (\<lambda>x. x) latinLower
           (Set (\<lambda>x. x) latinLower (NewQueryCache 0 (Finite 0)) 10 [] ''What is my risk exposure?'' ''p-1'' (Some 2))
           richStore 20 [] ''What is my risk exposure?'' ''p-1'')))) 5)) = ''tampered''
   \<and> fst (Get (\<lambda>x. x) latinLower
          (fst (snd (Get (\<lambda>x. x) latinLower
             (Set (\<lambda>x. x) latinLower (NewQueryCache 0 (Finite 0)) 10 [] ''What is my risk exposure?'' ''p-1'' (Some 2))
             richStore 20 [] ''What is my risk exposure?'' ''p-1'')))
          (tamper (snd (snd (Get (\<lambda>x. x) latinLower
             (Set (\<lambda>x. x) latinLower (NewQueryCache 0 (Finite 0)) 10 [] ''What is my risk exposure?'' ''p-1'' (Some 2))
             richStore 20 [] ''What is my risk exposure?'' ''p-1''))))
          30 [] ''What is my risk exposure?'' ''p-1'') = Some 8
   \<and> respContent (snd (snd (Get (\<lambda>x. x) latinLower
          (fst (snd (Get (\<lambda>x. x) latinLower
             (Set (\<lambda>x. x) latinLower (NewQueryCache 0 (Finite 0)) 10 [] ''What is my risk exposure?'' ''p-1'' (Some 2))
             richStore 20 [] ''What is my risk exposure?'' ''p-1'')))
          (tamper (snd (snd (Get (\<lambda>x. x) latinLower
             (Set (\<lambda>x. x) latinLower (NewQueryCache 0 (Finite 0)) 10 [] ''What is my risk exposure?'' ''p-1'' (Some 2))
             richStore 20 [] ''What is my risk exposure?'' ''p-1''))))
          30 [] ''What is my risk exposure?'' ''p-1''))) 8 = respContent richStore 2"
proof -
  let ?q = "''What is my risk exposure?''"
  let ?c1 = "Set (\<lambda>x. x) latinLower (NewQueryCache 0 (Finite 0)) 10 [] ?q ''p-1'' (Some 2)"
  let ?g = "Get (\<lambda>x. x) latinLower ?c1 richStore 20 [] ?q ''p-1''"
  have live: "resps richStore 2 = Some richResponse" by (simp add: richStore_def)
  have fresh: "(20::int) - 10 < ttl (NewQueryCache 0 (Finite 0))"
    by (simp add: NewQueryCache_def Hour_def Minute_def Second_def)
  have fresh2: "(30::int) - 10 < ttl (NewQueryCache 0 (Finite 0))"
    by (simp add: NewQueryCache_def Hour_def Minute_def Second_def)
  have n: "nxt richStore = 3" by (simp add: richStore_def)
  note t = Set_Get_roundtrip_clone [OF richStore_wf live fresh,
      where sha = "\<lambda>x. x" and lower = latinLower and q = ?q and p = "''p-1''"
        and order = "[]" and order' = "[]"]
  from t have a: "fst ?g = Some 5" by (simp add: n)
  from t have b: "respContent (snd (snd ?g)) 5 = respContent richStore 2" by (simp add: n)
  from t have later: "\<forall>s3 now'' order''.
           mutatesOnly (footprint (snd (snd ?g)) (nxt richStore + 2)) (snd (snd ?g)) s3
             \<and> now'' - 10 < ttl (NewQueryCache 0 (Finite 0)) \<longrightarrow>
           fst (Get (\<lambda>x. x) latinLower (fst (snd ?g)) s3 now'' order'' ?q ''p-1'') = Some (nxt s3 + 2)
           \<and> nxt s3 + 2 \<noteq> nxt richStore + 2
           \<and> respContent (snd (snd (Get (\<lambda>x. x) latinLower (fst (snd ?g)) s3 now'' order'' ?q ''p-1''))) (nxt s3 + 2)
               = respContent richStore 2"
    by (elim conjE)
  have src: "sliceIn (srcArrs richStore) (Sources richResponse)"
    and str: "sliceIn (strArrs richStore) (Disclaimers richResponse)"
    by (simp_all add: richStore_def richResponse_def sliceIn_def)
  have s2: "snd (snd ?g) = snd (cloneResponse richStore (Some 2))"
    using Get_exact [of ?c1 "\<lambda>x. x" latinLower ?q "''p-1''" _ 20 richStore "[]"] fresh
    by (simp add: Set_entry)
  have fp: "footprint (snd (snd ?g)) 5 = {3, 4, 5}"
    unfolding s2 cloneResponse_eq [OF live src str]
    by (auto simp: footprint_def sliceArr_def n)
  have nx: "nxt (snd (snd ?g)) = 6"
    unfolding s2 cloneResponse_eq [OF live src str] by (simp add: n)
  have m: "mutatesOnly (footprint (snd (snd ?g)) 5) (snd (snd ?g)) (tamper (snd (snd ?g)))"
    unfolding fp by (simp add: mutatesOnly_def tamper_def)
  have nt: "nxt (tamper (snd (snd ?g))) = 6"
    by (simp add: tamper_def nx)
  have tx: "Text (the (resps (tamper (snd (snd ?g))) 5)) = ''tampered''"
    by (simp add: tamper_def)
  from m have m': "mutatesOnly (footprint (snd (snd ?g)) (nxt richStore + 2)) (snd (snd ?g))
      (tamper (snd (snd ?g)))"
    by (simp add: n)
  from later [rule_format, OF conjI [OF m' fresh2], of "[]"] have
    "fst (Get (\<lambda>x. x) latinLower (fst (snd ?g)) (tamper (snd (snd ?g))) 30 [] ?q ''p-1'')
       = Some (nxt (tamper (snd (snd ?g))) + 2)
     \<and> respContent (snd (snd (Get (\<lambda>x. x) latinLower (fst (snd ?g)) (tamper (snd (snd ?g))) 30 [] ?q ''p-1'')))
          (nxt (tamper (snd (snd ?g))) + 2) = respContent richStore 2"
    by simp
  then have c: "fst (Get (\<lambda>x. x) latinLower (fst (snd ?g)) (tamper (snd (snd ?g))) 30 [] ?q ''p-1'') = Some 8"
    and d: "respContent (snd (snd (Get (\<lambda>x. x) latinLower (fst (snd ?g)) (tamper (snd (snd ?g))) 30 [] ?q ''p-1''))) 8
        = respContent richStore 2"
    by (simp_all add: nt)
  from richStore_wf live fresh a b tx c d show ?thesis by blast
qed

end
